theory Spec2Isabelle
  imports Main "HOL-Library.Product_Lexorder"
begin

section \<open>Strings\<close>

text \<open>
  A JavaScript string is a sequence of UTF-16 code units; \<open>key.length\<close>,
  \<open>split('')\<close>, indexing and \<open>slice\<close> all count code units. A code unit is
  a natural number below \<open>0x10000\<close>; no arithmetic is done on code units except the
  decoding of surrogate pairs, so nothing wraps.
\<close>

type_synonym jschar = nat
type_synonym jsstring = "jschar list"

definition utf16 :: "string \<Rightarrow> jsstring" where
  "utf16 s = map of_char s"

text \<open>
  \<open>Array.from(new Set(xs))\<close>: a JavaScript \<open>Set\<close> keeps insertion order and
  ignores a value that is already present, so the first occurrence of each element stays.
\<close>

definition insertionOrder :: "'a list \<Rightarrow> 'a list" where
  "insertionOrder xs = rev (remdups (rev xs))"

section \<open>Types of the plugin (types.ts)\<close>

datatype inputMode = literal | zh_pyjj

datatype jumpPosition =
  match_start | match_end | after_match_end | word_start | word_end | after_word_end

record settings =
  letters :: jsstring
  flashCaseSensitive :: bool
  flashInputMode :: inputMode
  flashJumpPosition :: jumpPosition
  flashJumpPositionCapital :: jumpPosition
  flashCharacterCount :: nat

text \<open>
  \<open>RawFlashMatch\<close> (pyjj.ts) and \<open>FlashMatch\<close> (types.ts). The field
  \<open>type\<close> of a \<open>FlashMatch\<close> is the constant \<open>'flash'\<close> and is left out.
\<close>

record RawFlashMatch =
  index :: nat
  matchLength :: nat
  linkText :: jsstring

record FlashMatch = RawFlashMatch +
  letter :: jsstring

section \<open>Label generator\<close>

text \<open>
  Modelled from the spec: \<open>generateHintLabels\<close> of \<open>hints/HintGenerator.ts\<close> is
  imported by the match detector but its file is not part of the sources at hand. The
  definition follows section 4.1 of the specification: the alphabet is deduplicated keeping
  first occurrences; \<open>usable\<close> is the alphabet without the excluded characters; the
  single-character labels consume \<open>usable\<close> in order, at most
  \<open>min count |usable|\<close> of them; then every letter of \<open>usable\<close> serves once as
  a prefix (outer loop) and is paired with every letter of the alphabet that is not excluded
  (inner loop); the result is cut at \<open>count\<close> labels.
\<close>

definition pairLabels :: "jsstring \<Rightarrow> jsstring \<Rightarrow> jschar set \<Rightarrow> jsstring list" where
  "pairLabels prefixes alphabet excluded =
     concat (map (\<lambda>p. map (\<lambda>s. [p, s]) (filter (\<lambda>s. s \<notin> excluded) alphabet)) prefixes)"

definition generateHintLabels :: "jsstring \<Rightarrow> nat \<Rightarrow> jschar set \<Rightarrow> jsstring list" where
  "generateHintLabels alphabet count excluded =
     (let alphabet' = insertionOrder alphabet;
          usable = filter (\<lambda>c. c \<notin> excluded) alphabet';
          singles = map (\<lambda>c. [c]) (take (min count (length usable)) usable);
          pairs = pairLabels usable alphabet' excluded
      in take count (singles @ pairs))"

section \<open>The JavaScript runtime\<close>

text \<open>
  The built-in operations of the runtime that the plugin calls. What they do on ASCII is
  written out; their Unicode tables and the \<open>pinyin-pro\<close> package are not part of the
  repository and are parameters of the model.
\<close>

record pinyinDetail =
  pyResult :: jsstring
  polyphonic :: "jsstring list"
  isZh :: bool

record runtime =
  unicodeLower :: "jsstring \<Rightarrow> jsstring"
  unicodeCaseFold :: "nat \<Rightarrow> nat"
  unicodeWordChar :: "jschar \<Rightarrow> bool"
  pinyin :: "jsstring \<Rightarrow> pinyinDetail list"

definition asciiLower :: "jschar \<Rightarrow> jschar" where
  "asciiLower c = (if 65 \<le> c \<and> c \<le> 90 then c + 32 else c)"

text \<open>\<open>String.prototype.toLowerCase\<close>.\<close>

definition toLowerCase :: "runtime \<Rightarrow> jsstring \<Rightarrow> jsstring" where
  "toLowerCase rt s = (if list_all (\<lambda>c. c < 128) s then map asciiLower s else unicodeLower rt s)"

text \<open>
  \<open>Canonicalize\<close> of a regular expression with the flags \<open>i\<close> and \<open>u\<close>: the
  simple case folding of a code point.
\<close>

definition caseFold :: "runtime \<Rightarrow> nat \<Rightarrow> nat" where
  "caseFold rt c = (if c < 128 then asciiLower c else unicodeCaseFold rt c)"

text \<open>\<open>/\S/.test(char)\<close> for a string of one code unit: the code unit is not white space.\<close>

definition isWhiteSpace :: "jschar \<Rightarrow> bool" where
  "isWhiteSpace c \<longleftrightarrow>
     c \<in> {0x09, 0x0A, 0x0B, 0x0C, 0x0D, 0x20, 0xA0, 0x1680, 0x2028, 0x2029, 0x202F, 0x205F,
          0x3000, 0xFEFF} \<or> (0x2000 \<le> c \<and> c \<le> 0x200A)"

text \<open>\<open>/[\p{L}\p{N}_]/u.test(char)\<close> for a string of one code unit.\<close>

definition isWordChar :: "runtime \<Rightarrow> jschar \<Rightarrow> bool" where
  "isWordChar rt c \<longleftrightarrow>
     (if c < 128
      then (48 \<le> c \<and> c \<le> 57) \<or> (65 \<le> c \<and> c \<le> 90) \<or> c = 95 \<or> (97 \<le> c \<and> c \<le> 122)
      else unicodeWordChar rt c)"

definition isHighSurrogate :: "jschar \<Rightarrow> bool" where
  "isHighSurrogate c \<longleftrightarrow> 0xD800 \<le> c \<and> c \<le> 0xDBFF"

definition isLowSurrogate :: "jschar \<Rightarrow> bool" where
  "isLowSurrogate c \<longleftrightarrow> 0xDC00 \<le> c \<and> c \<le> 0xDFFF"

text \<open>
  \<open>CodePointAt\<close> at the head of a string: the code point and the number of code units
  it takes.
\<close>

fun codePointAt :: "jsstring \<Rightarrow> (nat \<times> nat) option" where
  "codePointAt [] = None"
| "codePointAt [c] = Some (c, 1)"
| "codePointAt (c # d # cs) =
     (if isHighSurrogate c \<and> isLowSurrogate d
      then Some ((c - 0xD800) * 0x400 + (d - 0xDC00) + 0x10000, 2)
      else Some (c, 1))"

fun codePoints :: "jsstring \<Rightarrow> nat list" where
  "codePoints [] = []"
| "codePoints [c] = [c]"
| "codePoints (c # d # cs) =
     (if isHighSurrogate c \<and> isLowSurrogate d
      then ((c - 0xD800) * 0x400 + (d - 0xDC00) + 0x10000) # codePoints cs
      else c # codePoints (d # cs))"

text \<open>
  The string iterator (\<open>for (const char of s)\<close>): one string per code point, a
  surrogate pair staying together.
\<close>

fun stringIterator :: "jsstring \<Rightarrow> jsstring list" where
  "stringIterator [] = []"
| "stringIterator [c] = [[c]]"
| "stringIterator (c # d # cs) =
     (if isHighSurrogate c \<and> isLowSurrogate d
      then [c, d] # stringIterator cs
      else [c] # stringIterator (d # cs))"

section \<open>Regular expressions of escaped literals (utils/regexp.ts)\<close>

text \<open>The characters of the class \<open>[.*+?^${}()|[\]\\]\<close>.\<close>

definition regexSyntaxChars :: "jschar list" where
  "regexSyntaxChars = utf16 ''.*+?^${}()|[]'' @ [0x5C]"

text \<open>\<open>str.replace(/[.*+?^${}()|[\]\\]/g, '\\$&')\<close>\<close>

definition escapeRegex :: "jsstring \<Rightarrow> jsstring" where
  "escapeRegex s = concat (map (\<lambda>c. if c \<in> set regexSyntaxChars then [0x5C, c] else [c]) s)"

text \<open>
  \<open>new RegExp(pattern, flags)\<close> for the patterns that \<open>escapeRegex\<close> produces: a
  sequence of pattern characters and of escaped syntax characters, which stands for the
  literal it spells. \<open>None\<close> is every other pattern (the constructor throws, or the
  regular expression is no literal).
\<close>

fun literalPattern :: "jsstring \<Rightarrow> jsstring option" where
  "literalPattern [] = Some []"
| "literalPattern [c] = (if c \<in> set regexSyntaxChars then None else Some [c])"
| "literalPattern (c # d # cs) =
     (if c = 0x5C
      then (if d \<in> set regexSyntaxChars then map_option ((#) d) (literalPattern cs) else None)
      else if c \<in> set regexSyntaxChars then None
      else map_option ((#) c) (literalPattern (d # cs)))"

text \<open>
  The matcher of a literal in Unicode mode, at the head of the input: the pattern is a list
  of code points, the input is read code point by code point, and two code points match
  when they are equal after canonicalisation. The result is the number of code units
  matched.
\<close>

fun matchLiteral :: "(nat \<Rightarrow> nat) \<Rightarrow> nat list \<Rightarrow> jsstring \<Rightarrow> nat option" where
  "matchLiteral canon [] input = Some 0"
| "matchLiteral canon (p # ps) input =
     (case codePointAt input of
        None \<Rightarrow> None
      | Some (c, n) \<Rightarrow>
          if canon p = canon c
          then map_option ((+) n) (matchLiteral canon ps (drop n input))
          else None)"

text \<open>\<open>AdvanceStringIndex(S, index, unicode)\<close>\<close>

definition advanceStringIndex :: "jsstring \<Rightarrow> nat \<Rightarrow> bool \<Rightarrow> nat" where
  "advanceStringIndex S i unicode =
     (if \<not> unicode then i + 1
      else (case codePointAt (drop i S) of None \<Rightarrow> i + 1 | Some (c, n) \<Rightarrow> i + n))"

lemma advanceStringIndex_greater: "i < advanceStringIndex S i unicode"
  by (cases "drop i S" rule: codePointAt.cases) (simp_all add: advanceStringIndex_def)

text \<open>
  A regular expression object with the \<open>g\<close> flag: whether it has the \<open>u\<close> flag,
  and the matcher of its pattern, which for an input and an index into it gives the length
  of the match that starts at this index and the first capture group (\<open>None\<close> when the
  pattern has no such group or the group took no part), or \<open>None\<close> when the pattern
  does not match there. \<open>lastIndex\<close> is kept by the loops that use the object.
\<close>

record regExp =
  fullUnicode :: bool
  matcher :: "jsstring \<Rightarrow> nat \<Rightarrow> (nat \<times> jsstring option) option"

text \<open>
  \<open>new RegExp(pattern, 'gu')\<close> and \<open>new RegExp(pattern, 'igu')\<close> for a pattern that
  stands for a literal; \<open>canon\<close> is the canonicalisation of the flags.
\<close>

definition literalRegExp :: "(nat \<Rightarrow> nat) \<Rightarrow> nat list \<Rightarrow> regExp" where
  "literalRegExp canon pat =
     \<lparr>fullUnicode = True,
      matcher = (\<lambda>S i. map_option (\<lambda>n. (n, None)) (matchLiteral canon pat (drop i S)))\<rparr>"

text \<open>
  Where a global regular expression in Unicode mode starts to match: an index between the
  two halves of a surrogate pair stands for the code point that holds this element, so
  the match starts at the lead surrogate, one code unit before.
\<close>

definition stepBackToLeadSurrogate :: "jsstring \<Rightarrow> nat \<Rightarrow> nat" where
  "stepBackToLeadSurrogate S i =
     (if 0 < i \<and> i < length S \<and> isHighSurrogate (S ! (i - 1)) \<and> isLowSurrogate (S ! i)
      then i - 1 else i)"

text \<open>
  The scan of \<open>RegExpBuiltinExec\<close>: the matcher is tried at the index, and after a
  failure at the index that \<open>AdvanceStringIndex\<close> gives, until the index is beyond the
  end of the input.
\<close>

function regExpScan :: "regExp \<Rightarrow> jsstring \<Rightarrow> nat \<Rightarrow> (nat \<times> nat \<times> jsstring option) option" where
  "regExpScan R S i =
     (if length S < i then None
      else (case matcher R S i of
              Some (n, group1) \<Rightarrow> Some (i, n, group1)
            | None \<Rightarrow> regExpScan R S (advanceStringIndex S i (fullUnicode R))))"
  by pat_completeness auto
termination
proof (relation "measure (\<lambda>(R, S, i). Suc (length S) - i)")
  show "wf (measure (\<lambda>(R, S, i). Suc (length S) - i))"
    by simp
next
  fix R :: regExp and S :: jsstring and i :: nat
  assume "\<not> length S < i"
  with advanceStringIndex_greater [of i S "fullUnicode R"]
  show "((R, S, advanceStringIndex S i (fullUnicode R)), (R, S, i))
          \<in> measure (\<lambda>(R, S, i). Suc (length S) - i)"
    by simp
qed

declare regExpScan.simps [simp del]

text \<open>
  \<open>RegExpBuiltinExec\<close> of a global regular expression: it fails once \<open>lastIndex\<close> is
  beyond the end of the input; otherwise the scan starts at \<open>lastIndex\<close>, in Unicode
  mode at the lead surrogate when \<open>lastIndex\<close> is inside a surrogate pair, and the
  result is the index of the first match, its length and its first capture group.
  \<open>regex.exec\<close> then sets \<open>lastIndex\<close> to the end of the match, or to \<open>0\<close> when
  there is none.
\<close>

definition regExpBuiltinExec :: "regExp \<Rightarrow> jsstring \<Rightarrow> nat \<Rightarrow> (nat \<times> nat \<times> jsstring option) option" where
  "regExpBuiltinExec R S lastIndex =
     (if length S < lastIndex then None
      else regExpScan R S (if fullUnicode R then stepBackToLeadSurrogate S lastIndex else lastIndex))"

text \<open>
  \<open>adjustIndexForFormatting\<close>. The test of both \<open>for\<close> loops at an index \<open>i\<close>: the
  first character of the matched text is at \<open>i\<close> and, when the text is longer, the
  characters after it follow as far as both strings reach, all compared in lower case.
\<close>

definition matchedTextAt :: "runtime \<Rightarrow> jsstring \<Rightarrow> jsstring \<Rightarrow> nat \<Rightarrow> bool" where
  "matchedTextAt rt content matchedText i \<longleftrightarrow>
     toLowerCase rt [content ! i] = toLowerCase rt [matchedText ! 0] \<and>
     (if 1 < length matchedText
      then list_all (\<lambda>j. toLowerCase rt [content ! (i + j)] = toLowerCase rt [matchedText ! j])
             [1 ..< Suc (min (length matchedText - 1) (length content - i - 1))]
      else True)"

definition adjustIndexForFormatting :: "runtime \<Rightarrow> jsstring \<Rightarrow> nat \<Rightarrow> jsstring \<Rightarrow> nat" where
  "adjustIndexForFormatting rt content matchIndex matchedText =
     (if matchedText = [] \<or> length content \<le> matchIndex then matchIndex
      else if toLowerCase rt [content ! matchIndex] = toLowerCase rt [matchedText ! 0] then matchIndex
      else (case find (matchedTextAt rt content matchedText)
                   [matchIndex ..< min (matchIndex + 20) (length content)] of
              Some i \<Rightarrow> i
            | None \<Rightarrow>
                (case find (matchedTextAt rt content matchedText) (rev [matchIndex - 10 ..< matchIndex]) of
                   Some i \<Rightarrow> i
                 | None \<Rightarrow> matchIndex)))"

definition MAX_MATCHES :: nat where
  "MAX_MATCHES = 10000"

text \<open>An element of \<open>linksWithIndex\<close>; its field \<open>type\<close> is always \<open>"regex"\<close>.\<close>

record RegexLink =
  rl_index :: nat
  rl_linkText :: jsstring

text \<open>
  The loop of \<open>extractRegexpBlocks\<close>:
  \<^verbatim>\<open>let lastIndex = -1; let matchCount = 0;
while ((regExResult = regExUrl.exec(content))) {
    if (regExUrl.lastIndex === lastIndex) { regExUrl.lastIndex++; continue; }
    lastIndex = regExUrl.lastIndex;
    if (++matchCount > MAX_MATCHES) { break; }
    const linkText = regExResult[1] ?? regExResult[0];
    const adjustedIndex = adjustIndexForFormatting(content, regExResult.index, linkText);
    linksWithIndex.push({index: adjustedIndex + offset, type: "regex", linkText});
}\<close>
  The regular expression \<open>regExUrl\<close> is a parameter, since the pattern is any string
  of the caller. The state of the loop is \<open>regExUrl.lastIndex\<close>, \<open>lastIndex\<close>,
  \<open>matchCount\<close> and the array \<open>linksWithIndex\<close>. A run that never leaves the loop
  has the value \<open>None\<close>.
\<close>

partial_function (option) regexpBlocksLoop ::
    "runtime \<Rightarrow> regExp \<Rightarrow> jsstring \<Rightarrow> nat \<Rightarrow> nat \<Rightarrow> int \<Rightarrow> nat \<Rightarrow> RegexLink list \<Rightarrow> RegexLink list option" where
  "regexpBlocksLoop rt regExUrl content offset regexLastIndex lastIndex matchCount linksWithIndex =
     (case regExpBuiltinExec regExUrl content regexLastIndex of
        None \<Rightarrow> Some linksWithIndex
      | Some (matchIndex, n, group1) \<Rightarrow>
          if int (matchIndex + n) = lastIndex
          then regexpBlocksLoop rt regExUrl content offset (matchIndex + n + 1) lastIndex matchCount
                 linksWithIndex
          else if MAX_MATCHES < matchCount + 1 then Some linksWithIndex
          else (let linkText = (case group1 of Some g \<Rightarrow> g | None \<Rightarrow> take n (drop matchIndex content));
                    adjustedIndex = adjustIndexForFormatting rt content matchIndex linkText
                in regexpBlocksLoop rt regExUrl content offset (matchIndex + n) (int (matchIndex + n))
                     (matchCount + 1)
                     (linksWithIndex @ [\<lparr>rl_index = adjustedIndex + offset, rl_linkText = linkText\<rparr>])))"

section \<open>Literal matches (flash/FlashMatchDetector.ts)\<close>

text \<open>
  The loop of \<open>findLiteralMatches\<close>:
  \<^verbatim>\<open>while ((match = regex.exec(content)) !== null) {
    matches.push({index: match.index + index, matchLength: match[0].length, linkText: match[0]});
    if (match.index === regex.lastIndex) { regex.lastIndex++; }
}\<close>
  The state of the loop is \<open>regex.lastIndex\<close> and the array \<open>matches\<close>. A run that
  never leaves the loop has the value \<open>None\<close>.
\<close>

definition pushMatch :: "jsstring \<Rightarrow> nat \<Rightarrow> nat \<Rightarrow> nat \<Rightarrow> RawFlashMatch list \<Rightarrow> RawFlashMatch list" where
  "pushMatch content baseIndex matchIndex n ms =
     ms @ [\<lparr>index = matchIndex + baseIndex, matchLength = n, linkText = take n (drop matchIndex content)\<rparr>]"

definition nextLastIndex :: "nat \<Rightarrow> nat \<Rightarrow> nat" where
  "nextLastIndex matchIndex n =
     (let lastIndex = matchIndex + n in if matchIndex = lastIndex then lastIndex + 1 else lastIndex)"

partial_function (option) literalMatchLoop ::
    "regExp \<Rightarrow> jsstring \<Rightarrow> nat \<Rightarrow> nat \<Rightarrow> RawFlashMatch list \<Rightarrow> RawFlashMatch list option" where
  "literalMatchLoop regex content baseIndex lastIndex ms =
     (case regExpBuiltinExec regex content lastIndex of
        None \<Rightarrow> Some ms
      | Some (matchIndex, n, group1) \<Rightarrow>
          literalMatchLoop regex content baseIndex (nextLastIndex matchIndex n)
            (pushMatch content baseIndex matchIndex n ms))"

declare literalMatchLoop.simps [code]

definition canonicalize :: "runtime \<Rightarrow> settings \<Rightarrow> nat \<Rightarrow> nat" where
  "canonicalize rt st = (if flashCaseSensitive st then (\<lambda>c. c) else caseFold rt)"

text \<open>
  \<open>findLiteralMatches\<close>. Both flag sets of the \<open>try\<close> block hold \<open>g\<close> and
  \<open>u\<close>; the pattern is an escaped literal, so the constructor does not throw and the
  \<open>catch\<close> block is not entered (\<open>literalPattern_escapeRegex\<close> below). The callers pass
  a search string that is not empty (\<open>findMatches\<close> returns before the call on the empty
  one, \<open>collectSearchConflictChars\<close> appends a candidate), and the loop returns for
  every such string (\<open>literalMatchLoop_returns\<close> below). A run of the loop that does not
  return leaves no result; \<open>[]\<close> stands in its place.
\<close>

definition findLiteralMatches :: "runtime \<Rightarrow> settings \<Rightarrow> jsstring \<Rightarrow> jsstring \<Rightarrow> nat \<Rightarrow> RawFlashMatch list" where
  "findLiteralMatches rt st searchString content baseIndex =
     (case literalPattern (escapeRegex searchString) of
        None \<Rightarrow> []
      | Some lit \<Rightarrow>
          (case literalMatchLoop (literalRegExp (canonicalize rt st) (codePoints lit)) content baseIndex 0 [] of
             None \<Rightarrow> []
           | Some ms \<Rightarrow> ms))"

section \<open>Phonetic codes (flash/pyjj.ts)\<close>

datatype PyjjToken = Pair jsstring | Single jsstring

record CharInfo =
  ci_char :: jsstring
  ci_start :: nat
  ci_end :: nat

text \<open>The table \<open>TONE_TO_ASCII\<close>; every key is one code unit.\<close>

definition TONE_TO_ASCII :: "(jsstring \<times> jsstring) list" where
  "TONE_TO_ASCII =
     [([0x0101], utf16 ''a''), ([0x00E1], utf16 ''a''), ([0x01CE], utf16 ''a''), ([0x00E0], utf16 ''a''),
      ([0x0113], utf16 ''e''), ([0x00E9], utf16 ''e''), ([0x011B], utf16 ''e''), ([0x00E8], utf16 ''e''),
      ([0x012B], utf16 ''i''), ([0x00ED], utf16 ''i''), ([0x01D0], utf16 ''i''), ([0x00EC], utf16 ''i''),
      ([0x014D], utf16 ''o''), ([0x00F3], utf16 ''o''), ([0x01D2], utf16 ''o''), ([0x00F2], utf16 ''o''),
      ([0x016B], utf16 ''u''), ([0x00FA], utf16 ''u''), ([0x01D4], utf16 ''u''), ([0x00F9], utf16 ''u''),
      ([0x01D6], utf16 ''v''), ([0x01D8], utf16 ''v''), ([0x01DA], utf16 ''v''), ([0x01DC], utf16 ''v''),
      ([0x00FC], utf16 ''v''), ([0x0144], utf16 ''n''), ([0x0148], utf16 ''n''), ([0x01F9], utf16 ''n'')]"

text \<open>\<open>s.replace(/u:/g, 'v')\<close>\<close>

fun replaceUColon :: "jsstring \<Rightarrow> jsstring" where
  "replaceUColon [] = []"
| "replaceUColon [c] = [c]"
| "replaceUColon (c # d # cs) =
     (if c = of_char CHR ''u'' \<and> d = of_char CHR '':''
      then of_char CHR ''v'' # replaceUColon cs
      else c # replaceUColon (d # cs))"

definition normalizePinyin :: "runtime \<Rightarrow> jsstring \<Rightarrow> jsstring" where
  "normalizePinyin rt raw =
     (if raw = [] then []
      else
        (let normalized =
               concat (map (\<lambda>ch. case map_of TONE_TO_ASCII ch of Some a \<Rightarrow> a | None \<Rightarrow> ch)
                         (stringIterator (toLowerCase rt raw)))
         in filter (\<lambda>c. of_char CHR ''a'' \<le> c \<and> c \<le> of_char CHR ''z'') (replaceUColon normalized)))"

text \<open>
  The replacements of \<open>pinyinToPyjjCodes\<close>. Each regular expression of the source is
  anchored: \<open>/(a|b)$/\<close> replaces one of the given endings, \<open>/(.)x$/\<close> replaces the
  ending \<open>x\<close> when a character other than a line terminator stands before it (and keeps
  that character), \<open>/^x/\<close> replaces the beginning \<open>x\<close>.
\<close>

datatype replaceRule =
    AtEnd "string list" string
  | AfterCharAtEnd string string
  | AtStart string string

definition endsWith :: "jsstring \<Rightarrow> jsstring \<Rightarrow> bool" where
  "endsWith s suf \<longleftrightarrow> length suf \<le> length s \<and> drop (length s - length suf) s = suf"

definition startsWith :: "jsstring \<Rightarrow> jsstring \<Rightarrow> bool" where
  "startsWith s pre \<longleftrightarrow> take (length pre) s = pre"

definition isLineTerminator :: "jschar \<Rightarrow> bool" where
  "isLineTerminator c \<longleftrightarrow> c \<in> {0x0A, 0x0D, 0x2028, 0x2029}"

fun replaceAtEnd :: "jsstring list \<Rightarrow> jsstring \<Rightarrow> jsstring \<Rightarrow> jsstring" where
  "replaceAtEnd [] rep s = s"
| "replaceAtEnd (suf # sufs) rep s =
     (if endsWith s suf then take (length s - length suf) s @ rep else replaceAtEnd sufs rep s)"

fun applyRule :: "jsstring \<Rightarrow> replaceRule \<Rightarrow> jsstring" where
  "applyRule s (AtEnd sufs rep) = replaceAtEnd (map utf16 sufs) (utf16 rep) s"
| "applyRule s (AfterCharAtEnd suf rep) =
     (if endsWith s (utf16 suf) \<and> length suf < length s
         \<and> \<not> isLineTerminator (s ! (length s - length suf - 1))
      then take (length s - length suf) s @ utf16 rep
      else s)"
| "applyRule s (AtStart pre rep) =
     (if startsWith s (utf16 pre) then utf16 rep @ drop (length pre) s else s)"

definition pyjjRules :: "replaceRule list" where
  "pyjjRules =
     [AtEnd [''iu''] ''N'',
      AtEnd [''ia'', ''ua''] ''B'',
      AtEnd [''er''] ''Q'',
      AtEnd [''ing''] ''Q'',
      AtEnd [''uan'', ''van''] ''C'',
      AtEnd [''ue'', ''ve''] ''X'',
      AtEnd [''uai''] ''X'',
      AtStart ''sh'' ''I'',
      AtStart ''ch'' ''U'',
      AtStart ''zh'' ''V'',
      AtEnd [''uo''] ''O'',
      AtEnd [''un'', ''vn''] ''Z'',
      AtEnd [''iong''] ''Y'',
      AtEnd [''ong''] ''Y'',
      AtEnd [''iang'', ''uang''] ''H'',
      AfterCharAtEnd ''en'' ''R'',
      AfterCharAtEnd ''eng'' ''T'',
      AfterCharAtEnd ''ang'' ''G'',
      AtEnd [''ian''] ''J'',
      AfterCharAtEnd ''an'' ''F'',
      AtEnd [''iao''] ''K'',
      AfterCharAtEnd ''ao'' ''D'',
      AfterCharAtEnd ''ai'' ''S'',
      AfterCharAtEnd ''ei'' ''W'',
      AtEnd [''ie''] ''M'',
      AtEnd [''ui''] ''V'',
      AfterCharAtEnd ''ou'' ''P'',
      AtEnd [''in''] ''L'']"

text \<open>\<open>form.match(/^([ae])(.*)$/)\<close>: the leading \<open>a\<close> or \<open>e\<close> is doubled.\<close>

definition aeLeading :: "jsstring \<Rightarrow> jsstring" where
  "aeLeading form =
     (case form of
        [] \<Rightarrow> form
      | c # rest \<Rightarrow>
          if (c = of_char CHR ''a'' \<or> c = of_char CHR ''e'') \<and> \<not> list_ex isLineTerminator rest
          then c # c # rest
          else form)"

definition compressForm :: "runtime \<Rightarrow> jsstring \<Rightarrow> jsstring" where
  "compressForm rt originalForm = toLowerCase rt (foldl applyRule (aeLeading originalForm) pyjjRules)"

definition pinyinForms :: "jsstring \<Rightarrow> jsstring list" where
  "pinyinForms base =
     [base]
     @ (case base of
          [c, d] \<Rightarrow> if c \<in> set (utf16 ''jqxy'') \<and> d = of_char CHR ''u'' then [[c, of_char CHR ''v'']] else []
        | _ \<Rightarrow> [])
     @ (case base of
          c # _ \<Rightarrow> if c \<in> set (utf16 ''aoe'') then [of_char CHR ''o'' # base] else []
        | [] \<Rightarrow> [])"

text \<open>
  One pass of the loop \<open>for (const originalForm of forms)\<close>; \<open>output\<close> holds the
  codes seen so far.
\<close>

definition addPyjjCode :: "runtime \<Rightarrow> jsstring list \<Rightarrow> jsstring \<Rightarrow> jsstring list" where
  "addPyjjCode rt output originalForm =
     (let form = compressForm rt originalForm in
      if length form \<noteq> 2 \<or> form \<in> set output then output else output @ [form])"

definition pinyinToPyjjCodes :: "runtime \<Rightarrow> jsstring \<Rightarrow> jsstring list" where
  "pinyinToPyjjCodes rt input =
     (let base = normalizePinyin rt input in
      if base = [] then []
      else foldl (addPyjjCode rt) [] (pinyinForms base))"

text \<open>\<open>/[\u3400-\u4DBF\u4E00-\u9FFF\uF900-\uFAFF]/.test(char)\<close>\<close>

definition isHanCharacter :: "jsstring \<Rightarrow> bool" where
  "isHanCharacter ch \<longleftrightarrow>
     list_ex (\<lambda>c. (0x3400 \<le> c \<and> c \<le> 0x4DBF) \<or> (0x4E00 \<le> c \<and> c \<le> 0x9FFF) \<or> (0xF900 \<le> c \<and> c \<le> 0xFAFF)) ch"

text \<open>
  \<open>getPyjjCodesForChar\<close>. The cache is a \<open>Map\<close> from a character to its codes; a
  cached array is truthy even when empty, so a character is looked up once. Every path that
  computes the codes stores them before it returns them; \<open>computePyjjCodes\<close> is that
  computation.
\<close>

type_synonym codeCache = "jsstring \<rightharpoonup> jsstring list"

definition computePyjjCodes :: "runtime \<Rightarrow> jsstring \<Rightarrow> jsstring list" where
  "computePyjjCodes rt ch =
     (if \<not> isHanCharacter ch then []
      else
        (case pinyin rt ch of
           [] \<Rightarrow> []
         | d # _ \<Rightarrow>
             if \<not> isZh d then []
             else
               (let candidates = pyResult d # polyphonic d;
                    allPinyins = insertionOrder (filter (\<lambda>n. n \<noteq> []) (map (normalizePinyin rt) candidates))
                in insertionOrder (concat (map (pinyinToPyjjCodes rt) allPinyins)))))"

definition getPyjjCodesForChar :: "runtime \<Rightarrow> jsstring \<Rightarrow> codeCache \<Rightarrow> jsstring list \<times> codeCache" where
  "getPyjjCodesForChar rt ch cache =
     (case cache ch of
        Some cached \<Rightarrow> (cached, cache)
      | None \<Rightarrow> (let result = computePyjjCodes rt ch in (result, cache(ch \<mapsto> result))))"

definition isAsciiLetter :: "jschar \<Rightarrow> bool" where
  "isAsciiLetter c \<longleftrightarrow> (65 \<le> c \<and> c \<le> 90) \<or> (97 \<le> c \<and> c \<le> 122)"

text \<open>The loop of \<open>parsePyjjTokens\<close>: slices of two code units, the last one maybe of one.\<close>

fun pyjjTokens :: "jsstring \<Rightarrow> PyjjToken list" where
  "pyjjTokens [] = []"
| "pyjjTokens [c] = [Single [c]]"
| "pyjjTokens (c # d # cs) = Pair [c, d] # pyjjTokens cs"

text \<open>\<open>parsePyjjTokens\<close>; \<open>None\<close> is \<open>null\<close>.\<close>

definition parsePyjjTokens :: "runtime \<Rightarrow> jsstring \<Rightarrow> PyjjToken list option" where
  "parsePyjjTokens rt input =
     (if \<not> (input \<noteq> [] \<and> list_all isAsciiLetter input) then None
      else Some (pyjjTokens (toLowerCase rt input)))"

fun buildCharInfosFrom :: "nat \<Rightarrow> jsstring list \<Rightarrow> CharInfo list" where
  "buildCharInfosFrom offset [] = []"
| "buildCharInfosFrom offset (ch # chs) =
     \<lparr>ci_char = ch, ci_start = offset, ci_end = offset + length ch\<rparr>
       # buildCharInfosFrom (offset + length ch) chs"

definition buildCharInfos :: "jsstring \<Rightarrow> CharInfo list" where
  "buildCharInfos content = buildCharInfosFrom 0 (stringIterator content)"

definition matchesToken :: "runtime \<Rightarrow> jsstring \<Rightarrow> PyjjToken \<Rightarrow> codeCache \<Rightarrow> bool \<times> codeCache" where
  "matchesToken rt ch token cache =
     (let (codes, cache') = getPyjjCodesForChar rt ch cache in
      if length codes = 0 then (False, cache')
      else
        (case token of
           Pair v \<Rightarrow> (v \<in> set codes, cache')
         | Single v \<Rightarrow> (list_ex (\<lambda>code. startsWith code v) codes, cache')))"

text \<open>
  The inner loop of \<open>findPyjjMatchesInContent\<close>, over the tokens; \<open>chars\<close> is the
  array of characters from \<open>cursor\<close> on. The result is \<open>ok\<close> and the cache.
\<close>

fun matchTokens :: "runtime \<Rightarrow> CharInfo list \<Rightarrow> PyjjToken list \<Rightarrow> codeCache \<Rightarrow> bool \<times> codeCache" where
  "matchTokens rt chars [] cache = (True, cache)"
| "matchTokens rt [] (token # tokens) cache = (False, cache)"
| "matchTokens rt (info # chars) (token # tokens) cache =
     (let (ok, cache') = matchesToken rt (ci_char info) token cache in
      if \<not> ok then (False, cache') else matchTokens rt chars tokens cache')"

text \<open>
  The outer loop, \<open>for (let start = 0; start <= chars.length - tokens.length; start++)\<close>;
  it is entered only when \<open>chars.length >= tokens.length\<close>. \<open>pyjjMatchAt\<close> is
  the match it pushes for a window that matched, \<open>cursor\<close> being the index after the
  window.
\<close>

definition pyjjMatchAt :: "jsstring \<Rightarrow> nat \<Rightarrow> CharInfo list \<Rightarrow> nat \<Rightarrow> nat \<Rightarrow> RawFlashMatch" where
  "pyjjMatchAt content baseIndex chars cursor start =
     (let startOffset = ci_start (chars ! start);
          endOffset = ci_end (chars ! (cursor - 1));
          text' = take (endOffset - startOffset) (drop startOffset content)
      in \<lparr>index = baseIndex + startOffset, matchLength = endOffset - startOffset, linkText = text'\<rparr>)"

function pyjjLoop ::
    "runtime \<Rightarrow> jsstring \<Rightarrow> nat \<Rightarrow> CharInfo list \<Rightarrow> PyjjToken list \<Rightarrow> nat \<Rightarrow> codeCache
       \<Rightarrow> RawFlashMatch list \<Rightarrow> RawFlashMatch list \<times> codeCache" where
  "pyjjLoop rt content baseIndex chars tokens start cache ms =
     (if start + length tokens \<le> length chars
      then
        (let (ok, cache') = matchTokens rt (drop start chars) tokens cache in
         if \<not> ok then pyjjLoop rt content baseIndex chars tokens (start + 1) cache' ms
         else pyjjLoop rt content baseIndex chars tokens (start + 1) cache'
                (ms @ [pyjjMatchAt content baseIndex chars (start + length tokens) start]))
      else (ms, cache))"
  by pat_completeness auto
termination
  by (relation "measure (\<lambda>(rt, content, baseIndex, chars, tokens, start, cache, ms). Suc (length chars) - start)") auto

declare pyjjLoop.simps [simp del]

definition findPyjjMatchesInContent ::
    "runtime \<Rightarrow> jsstring \<Rightarrow> jsstring \<Rightarrow> nat \<Rightarrow> codeCache \<Rightarrow> RawFlashMatch list \<times> codeCache" where
  "findPyjjMatchesInContent rt searchString content baseIndex cache =
     (case parsePyjjTokens rt searchString of
        None \<Rightarrow> ([], cache)
      | Some tokens \<Rightarrow>
          if length tokens = 0 then ([], cache)
          else
            (let chars = buildCharInfos content in
             if length chars < length tokens then ([], cache)
             else pyjjLoop rt content baseIndex chars tokens 0 cache []))"

text \<open>
  The code list of a character as \<open>getPyjjCodesForChar\<close> returns it with a given
  cache: the cached list if there is one, the computed list otherwise.
\<close>

definition codesVia :: "runtime \<Rightarrow> codeCache \<Rightarrow> jsstring \<Rightarrow> jsstring list" where
  "codesVia rt cache ch = (case cache ch of Some cached \<Rightarrow> cached | None \<Rightarrow> computePyjjCodes rt ch)"

text \<open>
  Phonetic matching in the words of the specification (section 4.2): a two-character token
  matches a character when it is literally in the character's code list, a single dangling
  token when it is a prefix of some code of the list; a run of tokens matches at the
  character position \<open>p\<close> when every token matches its character, the characters
  following one another from \<open>p\<close> on.
\<close>

fun tokenMatchesCodes :: "jsstring list \<Rightarrow> PyjjToken \<Rightarrow> bool" where
  "tokenMatchesCodes codes (Pair v) \<longleftrightarrow> v \<in> set codes"
| "tokenMatchesCodes codes (Single v) \<longleftrightarrow> list_ex (\<lambda>code. startsWith code v) codes"

definition tokensMatchAt ::
    "(jsstring \<Rightarrow> jsstring list) \<Rightarrow> jsstring list \<Rightarrow> PyjjToken list \<Rightarrow> nat \<Rightarrow> bool" where
  "tokensMatchAt codesOf chars tokens p \<longleftrightarrow>
     p + length tokens \<le> length chars \<and>
     list_all2 (\<lambda>ch token. tokenMatchesCodes (codesOf ch) token)
       (take (length tokens) (drop p chars)) tokens"

text \<open>
  The claim on the phonetic matcher as the specification states it, with the tokens of the
  search string as typed.
\<close>

definition phoneticMatchAsStated ::
    "(jsstring \<Rightarrow> jsstring list) \<Rightarrow> jsstring \<Rightarrow> jsstring \<Rightarrow> nat \<Rightarrow> bool" where
  "phoneticMatchAsStated codesOf search content p \<longleftrightarrow>
     search \<noteq> [] \<and> list_all isAsciiLetter search \<and>
     tokensMatchAt codesOf (stringIterator content) (pyjjTokens search) p"

section \<open>Match detector (flash/FlashMatchDetector.ts)\<close>

text \<open>
  The file holds three revisions of the class; the one modelled is the revision with
  \<open>collectSearchConflictChars\<close>, \<open>getRawMatches\<close> and \<open>mergeMatches\<close>.
\<close>

text \<open>
  \<open>mergeMatches\<close>. The key of the \<open>Map\<close> is the string
  \<open>`${match.index}:${match.matchLength}`\<close> of two natural numbers, which is the pair of
  them; a \<open>Map\<close> keeps insertion order and the first match of a key stays.
  \<open>Array.prototype.sort\<close> is stable and the comparator orders by \<open>index\<close>, then by
  \<open>matchLength\<close>.
\<close>

definition matchKey :: "'a RawFlashMatch_scheme \<Rightarrow> nat \<times> nat" where
  "matchKey m = (index m, matchLength m)"

definition mergeInsert :: "RawFlashMatch list \<Rightarrow> RawFlashMatch \<Rightarrow> RawFlashMatch list" where
  "mergeInsert merged m = (if matchKey m \<in> matchKey ` set merged then merged else merged @ [m])"

definition mergeMatches :: "RawFlashMatch list list \<Rightarrow> RawFlashMatch list" where
  "mergeMatches matchLists = sort_key matchKey (foldl (foldl mergeInsert) [] matchLists)"

text \<open>\<open>{...match, letter: '', type: 'flash'}\<close>\<close>

definition toFlashMatch :: "RawFlashMatch \<Rightarrow> FlashMatch" where
  "toFlashMatch m = \<lparr>index = index m, matchLength = matchLength m, linkText = linkText m, letter = []\<rparr>"

definition getRawMatches ::
    "runtime \<Rightarrow> settings \<Rightarrow> jsstring \<Rightarrow> jsstring \<Rightarrow> nat \<Rightarrow> codeCache \<Rightarrow> FlashMatch list \<times> codeCache" where
  "getRawMatches rt st searchString content baseIndex cache =
     (let literalMatches = findLiteralMatches rt st searchString content baseIndex in
      if flashInputMode st \<noteq> zh_pyjj then (map toFlashMatch literalMatches, cache)
      else
        (let (pyjjMatches, cache') = findPyjjMatchesInContent rt searchString content baseIndex cache;
             merged = mergeMatches [literalMatches, pyjjMatches]
         in (map toFlashMatch merged, cache')))"

text \<open>
  \<open>collectSearchConflictChars\<close>: the candidates are the distinct code units of the
  lowercased alphabet that are not white space; the loop probes each of them and stops early
  once every candidate is a conflict. \<open>conflicts\<close> is a \<open>Set\<close>, kept in insertion
  order.
\<close>

definition conflictCandidates :: "runtime \<Rightarrow> settings \<Rightarrow> jschar list" where
  "conflictCandidates rt st =
     filter (\<lambda>c. \<not> isWhiteSpace c) (insertionOrder (toLowerCase rt (letters st)))"

fun conflictLoop ::
    "runtime \<Rightarrow> settings \<Rightarrow> jsstring \<Rightarrow> jsstring \<Rightarrow> nat \<Rightarrow> nat \<Rightarrow> jschar list \<Rightarrow> jschar list
       \<Rightarrow> codeCache \<Rightarrow> jschar list \<times> codeCache" where
  "conflictLoop rt st searchString content baseIndex candidateCount [] conflicts cache = (conflicts, cache)"
| "conflictLoop rt st searchString content baseIndex candidateCount (candidate # rest) conflicts cache =
     (let (extendedMatches, cache') =
            getRawMatches rt st (searchString @ [candidate]) content baseIndex cache
      in if length extendedMatches > 0
         then
           (let conflicts' = (if candidate \<in> set conflicts then conflicts else conflicts @ [candidate])
            in if length conflicts' = candidateCount then (conflicts', cache')
               else conflictLoop rt st searchString content baseIndex candidateCount rest conflicts' cache')
         else conflictLoop rt st searchString content baseIndex candidateCount rest conflicts cache')"

definition collectSearchConflictChars ::
    "runtime \<Rightarrow> settings \<Rightarrow> jsstring \<Rightarrow> jsstring \<Rightarrow> nat \<Rightarrow> codeCache \<Rightarrow> jschar list \<times> codeCache" where
  "collectSearchConflictChars rt st searchString content baseIndex cache =
     (let candidates = conflictCandidates rt st
      in conflictLoop rt st searchString content baseIndex (length candidates) candidates [] cache)"

text \<open>
  The editor as the detector reads it: the result of \<open>getVisibleLinesCM6(editor)\<close> (the
  start offset and the text of the viewport), the ranges \<open>editor.visibleRanges\<close>, and the
  document \<open>editor.state.doc\<close>.
\<close>

record editorView =
  visibleIndex :: nat
  visibleContent :: jsstring
  visibleRanges :: "(nat \<times> nat) list"
  doc :: jsstring

text \<open>
  \<open>for (let i = 0; i < visibleMatches.length && i < labels.length; i++)
  visibleMatches[i].letter = labels[i]\<close>
\<close>

fun assignLabels :: "FlashMatch list \<Rightarrow> jsstring list \<Rightarrow> FlashMatch list" where
  "assignLabels [] labels = []"
| "assignLabels (m # ms) [] = m # ms"
| "assignLabels (m # ms) (l # labels) = m\<lparr>letter := l\<rparr> # assignLabels ms labels"

definition isVisible :: "editorView \<Rightarrow> FlashMatch \<Rightarrow> bool" where
  "isVisible ed m \<longleftrightarrow> list_ex (\<lambda>(from, to). index m \<ge> from \<and> index m < to) (visibleRanges ed)"

definition findMatches ::
    "runtime \<Rightarrow> settings \<Rightarrow> editorView \<Rightarrow> jsstring \<Rightarrow> codeCache \<Rightarrow> FlashMatch list \<times> codeCache" where
  "findMatches rt st ed searchString cache =
     (if searchString = [] then ([], cache)
      else if visibleContent ed = [] then ([], cache)
      else
        (let (ms, cache1) = getRawMatches rt st searchString (visibleContent ed) (visibleIndex ed) cache in
         if length ms = 0 then ([], cache1)
         else
           (let visibleMatches = filter (isVisible ed) ms in
            if length visibleMatches = 0 then ([], cache1)
            else
              (let (continuationConflicts, cache2) =
                     collectSearchConflictChars rt st searchString (visibleContent ed) (visibleIndex ed) cache1;
                   labels = generateHintLabels (letters st) (length visibleMatches) (set continuationConflicts);
                   labelled = assignLabels visibleMatches labels
               in (filter (\<lambda>m. letter m \<noteq> []) labelled, cache2)))))"

section \<open>Keyboard mapping (keyboard/KeyboardMapper.ts)\<close>

definition CYRILLIC_TO_LATIN :: "(jschar \<times> jschar) list" where
  "CYRILLIC_TO_LATIN =
     [(0x0439, 0x71), (0x0446, 0x77), (0x0443, 0x65), (0x043A, 0x72), (0x0435, 0x74), (0x043D, 0x79),
      (0x0433, 0x75), (0x0448, 0x69), (0x0449, 0x6F), (0x0437, 0x70),
      (0x0444, 0x61), (0x044B, 0x73), (0x0432, 0x64), (0x0430, 0x66), (0x043F, 0x67), (0x0440, 0x68),
      (0x043E, 0x6A), (0x043B, 0x6B), (0x0434, 0x6C),
      (0x044F, 0x7A), (0x0447, 0x78), (0x0441, 0x63), (0x043C, 0x76), (0x0438, 0x62), (0x0442, 0x6E),
      (0x044C, 0x6D),
      (0x0419, 0x51), (0x0426, 0x57), (0x0423, 0x45), (0x041A, 0x52), (0x0415, 0x54), (0x041D, 0x59),
      (0x0413, 0x55), (0x0428, 0x49), (0x0429, 0x4F), (0x0417, 0x50),
      (0x0424, 0x41), (0x042B, 0x53), (0x0412, 0x44), (0x0410, 0x46), (0x041F, 0x47), (0x0420, 0x48),
      (0x041E, 0x4A), (0x041B, 0x4B), (0x0414, 0x4C),
      (0x042F, 0x5A), (0x0427, 0x58), (0x0421, 0x43), (0x041C, 0x56), (0x0418, 0x42), (0x0422, 0x4E),
      (0x042C, 0x4D),
      (0x0445, 0x5B), (0x044A, 0x5D), (0x0436, 0x3B), (0x044D, 0x27), (0x0431, 0x2C), (0x044E, 0x2E),
      (0x0425, 0x7B), (0x042A, 0x7D), (0x0416, 0x3A), (0x042D, 0x22), (0x0411, 0x3C), (0x042E, 0x3E)]"

definition MODIFIER_KEYS :: "jsstring list" where
  "MODIFIER_KEYS =
     map utf16 [''Shift'', ''Meta'', ''Escape'', ''Control'', ''Alt'',
                ''CapsLock'', ''Tab'', ''Backspace'', ''Enter'']"

text \<open>\<open>/[\u0400-\u04FF]/.test(str)\<close>\<close>

definition isCyrillic :: "jsstring \<Rightarrow> bool" where
  "isCyrillic str \<longleftrightarrow> list_ex (\<lambda>c. 0x0400 \<le> c \<and> c \<le> 0x04FF) str"

definition convertToLatin :: "jsstring \<Rightarrow> jsstring" where
  "convertToLatin str = map (\<lambda>c. case map_of CYRILLIC_TO_LATIN c of Some l \<Rightarrow> l | None \<Rightarrow> c) str"

definition normalizeKeypress :: "jsstring \<Rightarrow> jsstring" where
  "normalizeKeypress key = (if isCyrillic key then convertToLatin key else key)"

definition isModifierKey :: "jsstring \<Rightarrow> bool" where
  "isModifierKey key \<longleftrightarrow> key \<in> set MODIFIER_KEYS"

section \<open>Flash controller (flash/FlashController.ts)\<close>

text \<open>
  What the controller is constructed with: the runtime, the settings, the editor, whether
  \<open>view.contentEl\<close> exists, and the three optional callbacks. The jump callback and the
  decoration callback are observed as events. The completion callback is the one the source
  guards against: it may call \<open>deactivate()\<close> on the controller again
  (\<open>onComplete -> removePopovers -> deactivate\<close>); \<open>Some n\<close> is a callback that does so
  \<open>n\<close> times, \<open>None\<close> is no callback.
\<close>

record host =
  js :: runtime
  config :: settings
  editor :: editorView
  contentEl :: bool
  onJump :: bool
  onDecorationUpdate :: bool
  onComplete :: "nat option"

text \<open>The calls the controller makes on its surroundings, in the order it makes them.\<close>

datatype event =
    ApplyDimming
  | RemoveDimming
  | CreateSearchPanel
  | UpdateSearchPanel jsstring
  | DestroySearchPanel
  | AddKeydownListener
  | RemoveKeydownListener
  | AddClickListener
  | RemoveClickListener
  | DecorationUpdate "FlashMatch list" nat jsstring
  | Jump int
  | Dispatch int
  | Complete

text \<open>
  The fields of the class. \<open>keydownHandler\<close>, \<open>clickHandler\<close> and
  \<open>searchPanel\<close> are \<open>True\<close> when the field is not \<open>null\<close>;
  \<open>pyjjCodeCache\<close> is the cache of the controller's detector; \<open>effects\<close> is the
  list of the events so far.
\<close>

record controller =
  searchString :: jsstring
  isActive :: bool
  isDeactivating :: bool
  matches :: "FlashMatch list"
  keydownHandler :: bool
  clickHandler :: bool
  pyjjCodeCache :: codeCache
  matchedPrefix :: jsstring
  prefixShiftHeld :: bool
  lastShiftKey :: bool
  searchPanel :: bool
  effects :: "event list"

definition emit :: "event \<Rightarrow> controller \<Rightarrow> controller" where
  "emit e c = c\<lparr>effects := effects c @ [e]\<rparr>"

definition applyDimming :: "host \<Rightarrow> controller \<Rightarrow> controller" where
  "applyDimming h c = (if contentEl h then emit ApplyDimming c else c)"

definition removeDimming :: "host \<Rightarrow> controller \<Rightarrow> controller" where
  "removeDimming h c = (if contentEl h then emit RemoveDimming c else c)"

definition createSearchPanel :: "host \<Rightarrow> controller \<Rightarrow> controller" where
  "createSearchPanel h c = (if contentEl h then emit CreateSearchPanel (c\<lparr>searchPanel := True\<rparr>) else c)"

definition destroySearchPanel :: "controller \<Rightarrow> controller" where
  "destroySearchPanel c = (if searchPanel c then (emit DestroySearchPanel c)\<lparr>searchPanel := False\<rparr> else c)"

definition registerKeyHandler :: "host \<Rightarrow> controller \<Rightarrow> controller" where
  "registerKeyHandler h c =
     (let c' = c\<lparr>keydownHandler := True\<rparr> in if contentEl h then emit AddKeydownListener c' else c')"

definition unregisterKeyHandler :: "host \<Rightarrow> controller \<Rightarrow> controller" where
  "unregisterKeyHandler h c =
     (if keydownHandler c \<and> contentEl h then (emit RemoveKeydownListener c)\<lparr>keydownHandler := False\<rparr> else c)"

definition registerClickHandler :: "host \<Rightarrow> controller \<Rightarrow> controller" where
  "registerClickHandler h c =
     (let c' = c\<lparr>clickHandler := True\<rparr> in if contentEl h then emit AddClickListener c' else c')"

definition unregisterClickHandler :: "host \<Rightarrow> controller \<Rightarrow> controller" where
  "unregisterClickHandler h c =
     (if clickHandler c \<and> contentEl h then (emit RemoveClickListener c)\<lparr>clickHandler := False\<rparr> else c)"

definition activate :: "host \<Rightarrow> controller \<Rightarrow> controller" where
  "activate h c =
     registerClickHandler h (registerKeyHandler h (createSearchPanel h (applyDimming h
       (c\<lparr>isActive := True, searchString := [], matches := [], matchedPrefix := [],
          prefixShiftHeld := False, lastShiftKey := False\<rparr>))))"

definition notifyDecorationUpdate :: "host \<Rightarrow> controller \<Rightarrow> controller" where
  "notifyDecorationUpdate h c =
     (let c' = (if searchPanel c then emit (UpdateSearchPanel (searchString c)) c else c)
      in if onDecorationUpdate h
         then emit (DecorationUpdate (matches c') (length (searchString c')) (matchedPrefix c')) c'
         else c')"

text \<open>
  \<open>deactivate\<close>, from the assignment \<open>this.isActive = false\<close> to
  \<open>this.unregisterClickHandler()\<close>.
\<close>

definition teardown :: "host \<Rightarrow> controller \<Rightarrow> controller" where
  "teardown h c =
     unregisterClickHandler h (unregisterKeyHandler h (destroySearchPanel (removeDimming h
       (notifyDecorationUpdate h
          (c\<lparr>isActive := False, searchString := [], matches := [], matchedPrefix := [],
             prefixShiftHeld := False, lastShiftKey := False\<rparr>)))))"

lemma isDeactivating_emit [simp]: "isDeactivating (emit e c) = isDeactivating c"
  by (simp add: emit_def)

lemma isDeactivating_teardown [simp]: "isDeactivating (teardown h c) = isDeactivating c"
  by (simp add: teardown_def unregisterClickHandler_def unregisterKeyHandler_def
      destroySearchPanel_def removeDimming_def notifyDecorationUpdate_def Let_def)

text \<open>
  \<open>deactivate\<close> with its guard. \<open>onCompleteCalls h n\<close> is the completion callback
  calling \<open>deactivate()\<close> again \<open>n\<close> times while the first call is still running.
\<close>

definition guardRank :: "controller \<Rightarrow> nat" where
  "guardRank c = (if isDeactivating c \<or> \<not> isActive c then 0 else 1)"

definition callRank :: "host \<times> controller + host \<times> nat \<times> controller \<Rightarrow> nat \<times> nat" where
  "callRank x = (case x of Inl (h, c) \<Rightarrow> (guardRank c, 0) | Inr (h, n, c) \<Rightarrow> (guardRank c, Suc n))"

function deactivate :: "host \<Rightarrow> controller \<Rightarrow> controller"
  and onCompleteCalls :: "host \<Rightarrow> nat \<Rightarrow> controller \<Rightarrow> controller" where
  "deactivate h c =
     (if isDeactivating c \<or> \<not> isActive c then c
      else
        (let c1 = teardown h (c\<lparr>isDeactivating := True\<rparr>);
             c2 = (case onComplete h of
                     None \<Rightarrow> c1
                   | Some n \<Rightarrow> onCompleteCalls h n (emit Complete c1))
         in c2\<lparr>isDeactivating := False\<rparr>))"
| "onCompleteCalls h 0 c = c"
| "onCompleteCalls h (Suc n) c = onCompleteCalls h n (deactivate h c)"
  by pat_completeness auto
termination
proof (relation "inv_image (less_than <*lex*> less_than) callRank")
  show "wf (inv_image (less_than <*lex*> less_than) callRank)"
    by (intro wf_inv_image wf_lex_prod wf_less_than)
next
  fix h :: host and c :: controller and c1 :: controller and n :: nat
  assume "\<not> (isDeactivating c \<or> \<not> isActive c)"
    and "c1 = teardown h (c\<lparr>isDeactivating := True\<rparr>)"
  then show "(Inr (h, n, emit Complete c1), Inl (h, c))
      \<in> inv_image (less_than <*lex*> less_than) callRank"
    by (simp add: callRank_def guardRank_def)
next
  fix h :: host and n :: nat and c :: controller
  show "(Inl (h, c), Inr (h, Suc n, c)) \<in> inv_image (less_than <*lex*> less_than) callRank"
    by (simp add: callRank_def)
next
  fix h :: host and n :: nat and c :: controller
  assume dom: "deactivate_onCompleteCalls_dom (Inl (h, c))"
  have "deactivate h c = c" if "guardRank c = 0"
  proof -
    from that have "isDeactivating c \<or> \<not> isActive c"
      by (simp add: guardRank_def split: if_splits)
    then show ?thesis
      by (subst deactivate.psimps [OF dom]) simp
  qed
  moreover have "guardRank c \<le> 1" and "guardRank (deactivate h c) \<le> 1"
    by (simp_all add: guardRank_def)
  ultimately show "(Inr (h, n, deactivate h c), Inr (h, Suc n, c))
      \<in> inv_image (less_than <*lex*> less_than) callRank"
    by (cases "guardRank c = 0") (auto simp: callRank_def)
qed

declare deactivate.simps [simp del]

text \<open>\<open>doc.sliceString(from, to)\<close>\<close>

definition sliceString :: "jsstring \<Rightarrow> nat \<Rightarrow> nat \<Rightarrow> jsstring" where
  "sliceString d from to = take (to - from) (drop from d)"

text \<open>
  The loop of \<open>findWordStart\<close>:
  \<open>while (offset > 0) { if (!word(content[offset - 1])) break; offset--; }\<close>
\<close>

fun wordStartOffset :: "runtime \<Rightarrow> jsstring \<Rightarrow> nat \<Rightarrow> nat" where
  "wordStartOffset rt content 0 = 0"
| "wordStartOffset rt content (Suc k) =
     (if \<not> isWordChar rt (content ! k) then Suc k else wordStartOffset rt content k)"

definition findWordStart :: "runtime \<Rightarrow> editorView \<Rightarrow> nat \<Rightarrow> nat" where
  "findWordStart rt ed pos =
     (let bufferSize = 100;
          searchStart = pos - bufferSize;
          content = sliceString (doc ed) searchStart pos
      in searchStart + wordStartOffset rt content (length content))"

text \<open>
  The loop of \<open>findWordEnd\<close>:
  \<open>while (offset < content.length) { if (!word(content[offset])) break; offset++; }\<close>
\<close>

function wordEndOffset :: "runtime \<Rightarrow> jsstring \<Rightarrow> nat \<Rightarrow> nat" where
  "wordEndOffset rt content offset =
     (if offset < length content
      then (if \<not> isWordChar rt (content ! offset) then offset
            else wordEndOffset rt content (offset + 1))
      else offset)"
  by pat_completeness auto
termination
  by (relation "measure (\<lambda>(rt, content, offset). length content - offset)") auto

declare wordEndOffset.simps [simp del]

definition findWordEnd :: "runtime \<Rightarrow> editorView \<Rightarrow> nat \<Rightarrow> nat" where
  "findWordEnd rt ed pos =
     (let docLen = length (doc ed);
          bufferSize = 100;
          searchEnd = min docLen (pos + bufferSize);
          content = sliceString (doc ed) pos searchEnd
      in pos + wordEndOffset rt content 0)"

text \<open>
  \<open>calculateJumpPosition\<close>. The setting is one of the six positions of its type, so the
  \<open>default\<close> branch of the \<open>switch\<close> has no case here. \<open>matchEnd - 1\<close> is
  \<open>-1\<close> for an empty match at offset \<open>0\<close>, so the position is an integer.
\<close>

definition calculateJumpPosition :: "host \<Rightarrow> FlashMatch \<Rightarrow> bool \<Rightarrow> int" where
  "calculateJumpPosition h m useCapital =
     (let setting = (if useCapital then flashJumpPositionCapital (config h)
                     else flashJumpPosition (config h));
          matchStart = index m;
          matchEnd = index m + matchLength m
      in case setting of
           match_start \<Rightarrow> int matchStart
         | match_end \<Rightarrow> int matchEnd - 1
         | after_match_end \<Rightarrow> int matchEnd
         | word_start \<Rightarrow> int (findWordStart (js h) (editor h) matchStart)
         | word_end \<Rightarrow> int (findWordEnd (js h) (editor h) matchEnd)
         | after_word_end \<Rightarrow> int (findWordEnd (js h) (editor h) matchEnd) + 1)"

definition jumpToMatch :: "host \<Rightarrow> FlashMatch \<Rightarrow> bool \<Rightarrow> controller \<Rightarrow> controller" where
  "jumpToMatch h m useCapital c =
     (let jumpPosition = calculateJumpPosition h m useCapital;
          c' = (if onJump h then emit (Jump jumpPosition) c else emit (Dispatch jumpPosition) c)
      in deactivate h c')"

text \<open>\<open>this.detector.findMatches(searchString)\<close>, which may fill the detector's cache.\<close>

definition detectorFindMatches :: "host \<Rightarrow> jsstring \<Rightarrow> controller \<Rightarrow> FlashMatch list \<times> controller" where
  "detectorFindMatches h s c =
     (let (ms, cache') = findMatches (js h) (config h) (editor h) s (pyjjCodeCache c)
      in (ms, c\<lparr>pyjjCodeCache := cache'\<rparr>))"

definition updateMatches :: "host \<Rightarrow> controller \<Rightarrow> controller" where
  "updateMatches h c =
     (if length (searchString c) < flashCharacterCount (config h)
      then notifyDecorationUpdate h (c\<lparr>matches := []\<rparr>)
      else
        (let (ms, c1) = detectorFindMatches h (searchString c) c;
             c2 = c1\<lparr>matches := ms\<rparr>
         in if length (matches c2) = 1
            then jumpToMatch h (matches c2 ! 0) (lastShiftKey c2) c2
            else notifyDecorationUpdate h c2))"

definition isPrintable :: "jsstring \<Rightarrow> bool" where
  "isPrintable key \<longleftrightarrow> length key = 1"

text \<open>
  The last two statements of \<open>handleKeyDown\<close>,
  \<open>this.searchString += key; this.updateMatches();\<close>, reached below the threshold, with
  no matches, and by falling through from the prefix branch.
\<close>

definition addToSearch :: "host \<Rightarrow> jsstring \<Rightarrow> controller \<Rightarrow> controller" where
  "addToSearch h key c = updateMatches h (c\<lparr>searchString := searchString c @ key\<rparr>)"

text \<open>
  The \<open>else\<close> branch of \<open>if (this.matchedPrefix)\<close>: the search is extended when the
  extended string has matches; otherwise the key selects a label, opens a prefix, or is
  added to the search with no matches left.
\<close>

definition extendOrSelect :: "host \<Rightarrow> jsstring \<Rightarrow> bool \<Rightarrow> controller \<Rightarrow> controller" where
  "extendOrSelect h key shiftKey c0 =
     (let normalizedKey = normalizeKeypress key;
          potentialSearch = searchString c0 @ key;
          (potentialMatches, c) = detectorFindMatches h potentialSearch c0
      in if length potentialMatches > 0
         then
           (let c' = c\<lparr>searchString := potentialSearch, matches := potentialMatches\<rparr>
            in if length (matches c') = 1
               then jumpToMatch h (matches c' ! 0) shiftKey c'
               else notifyDecorationUpdate h c')
         else
           (let lowerKey = toLowerCase (js h) normalizedKey
            in case find (\<lambda>m. letter m = lowerKey) (matches c) of
                 Some exactMatch \<Rightarrow> jumpToMatch h exactMatch shiftKey c
               | None \<Rightarrow>
                   (let prefixMatches =
                          filter (\<lambda>m. length (letter m) = 2 \<and> [letter m ! 0] = lowerKey) (matches c)
                    in if length prefixMatches > 0
                       then notifyDecorationUpdate h
                              (c\<lparr>matchedPrefix := lowerKey, prefixShiftHeld := shiftKey,
                                 matches := prefixMatches\<rparr>)
                       else notifyDecorationUpdate h
                              (c\<lparr>searchString := potentialSearch, matches := []\<rparr>))))"

text \<open>
  The body of \<open>if (this.isPrintable(key))\<close>; \<open>c\<close> is the controller after
  \<open>this.lastShiftKey = shiftKey\<close>.
\<close>

definition handlePrintable :: "host \<Rightarrow> jsstring \<Rightarrow> bool \<Rightarrow> controller \<Rightarrow> controller" where
  "handlePrintable h key shiftKey c =
     (let normalizedKey = normalizeKeypress key
      in if length (searchString c) \<ge> flashCharacterCount (config h) \<and> length (matches c) > 0
         then
           (if matchedPrefix c \<noteq> []
            then
              (let fullLabel = matchedPrefix c @ toLowerCase (js h) normalizedKey
               in case find (\<lambda>m. letter m = fullLabel) (matches c) of
                    Some match \<Rightarrow> jumpToMatch h match (prefixShiftHeld c \<or> shiftKey) c
                  | None \<Rightarrow>
                      addToSearch h key (c\<lparr>matchedPrefix := [], prefixShiftHeld := False\<rparr>))
            else extendOrSelect h key shiftKey c)
         else addToSearch h key c)"

definition handleKeyDown :: "host \<Rightarrow> jsstring \<Rightarrow> bool \<Rightarrow> controller \<Rightarrow> controller" where
  "handleKeyDown h key shiftKey c0 =
     (let c = c0\<lparr>lastShiftKey := shiftKey\<rparr>
      in if key = utf16 ''Escape'' then deactivate h c
         else if key = utf16 ''Backspace'' then
           (if matchedPrefix c \<noteq> []
            then updateMatches h (c\<lparr>matchedPrefix := [], prefixShiftHeld := False\<rparr>)
            else if length (searchString c) > 0
            then updateMatches h (c\<lparr>searchString := butlast (searchString c)\<rparr>)
            else c)
         else if key = utf16 ''Tab'' then deactivate h c
         else if isModifierKey key then c
         else if isPrintable key then handlePrintable h key shiftKey c
         else c)"

text \<open>The controller as its field initialisers leave it, before \<open>activate()\<close>.\<close>

definition newController :: controller where
  "newController =
     \<lparr>searchString = [], isActive = False, isDeactivating = False, matches = [],
      keydownHandler = False, clickHandler = False, pyjjCodeCache = Map.empty,
      matchedPrefix = [], prefixShiftHeld = False, lastShiftKey = False, searchPanel = False,
      effects = []\<rparr>"

section \<open>Example hosts and controllers\<close>

text \<open>
  A runtime without Unicode tables and without phonetic data, the settings of a three-letter
  alphabet and a threshold of two characters, and an editor that shows the text
  \<open>ab abc abd\<close>.
\<close>

definition exRuntime :: runtime where
  "exRuntime =
     \<lparr>unicodeLower = (\<lambda>s. s), unicodeCaseFold = (\<lambda>c. c), unicodeWordChar = (\<lambda>c. False),
      pinyin = (\<lambda>s. [])\<rparr>"

definition exSettings :: settings where
  "exSettings =
     \<lparr>letters = utf16 ''asd'', flashCaseSensitive = False, flashInputMode = literal,
      flashJumpPosition = match_end, flashJumpPositionCapital = match_start,
      flashCharacterCount = 2\<rparr>"

definition exEditor :: editorView where
  "exEditor =
     \<lparr>visibleIndex = 0, visibleContent = utf16 ''ab abc abd'', visibleRanges = [(0, 10)],
      doc = utf16 ''ab abc abd''\<rparr>"

definition exHost :: host where
  "exHost =
     \<lparr>js = exRuntime, config = exSettings, editor = exEditor, contentEl = True, onJump = True,
      onDecorationUpdate = True, onComplete = Some 2\<rparr>"

text \<open>The controller after \<open>activate()\<close> and the keys \<open>a\<close>, \<open>b\<close>.\<close>

definition exSearching :: controller where
  "exSearching = handleKeyDown exHost (utf16 ''b'') False
     (handleKeyDown exHost (utf16 ''a'') False (activate exHost newController))"

text \<open>
  A second editor, showing \<open>ab ab ab\<close>, and a controller in plain searching whose
  three matches carry the labels \<open>f\<close>, \<open>da\<close> and \<open>ds\<close>, as a generator that
  keeps \<open>d\<close> for two-letter labels gives them. The key \<open>d\<close> (with shift) then
  opens the prefix \<open>d\<close>.
\<close>

definition exEditor2 :: editorView where
  "exEditor2 =
     \<lparr>visibleIndex = 0, visibleContent = utf16 ''ab ab ab'', visibleRanges = [(0, 8)],
      doc = utf16 ''ab ab ab''\<rparr>"

definition exHost2 :: host where
  "exHost2 = exHost\<lparr>config := exSettings\<lparr>letters := utf16 ''asdf''\<rparr>, editor := exEditor2\<rparr>"

definition exLabelled :: controller where
  "exLabelled =
     \<lparr>searchString = utf16 ''ab'', isActive = True, isDeactivating = False,
      matches = [\<lparr>index = 0, matchLength = 2, linkText = utf16 ''ab'', letter = utf16 ''f''\<rparr>,
                 \<lparr>index = 3, matchLength = 2, linkText = utf16 ''ab'', letter = utf16 ''da''\<rparr>,
                 \<lparr>index = 6, matchLength = 2, linkText = utf16 ''ab'', letter = utf16 ''ds''\<rparr>],
      keydownHandler = True, clickHandler = True, pyjjCodeCache = Map.empty,
      matchedPrefix = [], prefixShiftHeld = False, lastShiftKey = False, searchPanel = True,
      effects = []\<rparr>"

definition exPrefixPending :: controller where
  "exPrefixPending = handleKeyDown exHost2 (utf16 ''d'') True exLabelled"

text \<open>
  A runtime whose \<open>pinyin\<close> knows the readings \<open>zhong\<close> of U+4E2D and \<open>guo\<close>
  of U+56FD, and settings in the phonetic input mode.
\<close>

definition exPinyin :: "jsstring \<Rightarrow> pinyinDetail list" where
  "exPinyin ch =
     (if ch = [0x4E2D] then [\<lparr>pyResult = utf16 ''zhong'', polyphonic = [utf16 ''zhong''], isZh = True\<rparr>]
      else if ch = [0x56FD] then [\<lparr>pyResult = utf16 ''guo'', polyphonic = [utf16 ''guo''], isZh = True\<rparr>]
      else [\<lparr>pyResult = ch, polyphonic = [], isZh = False\<rparr>])"

definition exPyRuntime :: runtime where
  "exPyRuntime = exRuntime\<lparr>pinyin := exPinyin\<rparr>"

definition exPySettings :: settings where
  "exPySettings = exSettings\<lparr>flashInputMode := zh_pyjj\<rparr>"

section \<open>Properties of the label generator\<close>

lemma set_insertionOrder: "set (insertionOrder xs) = set xs"
  by (simp add: insertionOrder_def)

lemma distinct_insertionOrder: "distinct (insertionOrder xs)"
  by (simp add: insertionOrder_def)

lemma pairLabels_shape:
  assumes "l \<in> set (pairLabels prefixes alphabet excluded)"
  shows "\<exists>p s. l = [p, s] \<and> p \<in> set prefixes \<and> s \<in> set alphabet \<and> s \<notin> excluded"
  using assms by (auto simp: pairLabels_def)

lemma generateHintLabels_cases:
  assumes "l \<in> set (generateHintLabels alphabet count excluded)"
  shows "(\<exists>c. l = [c] \<and> c \<in> set alphabet \<and> c \<notin> excluded) \<or>
         (\<exists>p s. l = [p, s] \<and> p \<in> set alphabet \<and> p \<notin> excluded \<and> s \<in> set alphabet \<and> s \<notin> excluded)"
proof -
  let ?A = "insertionOrder alphabet"
  let ?U = "filter (\<lambda>c. c \<notin> excluded) ?A"
  from assms have "l \<in> set (map (\<lambda>c. [c]) (take (min count (length ?U)) ?U) @ pairLabels ?U ?A excluded)"
    by (auto simp: generateHintLabels_def Let_def dest: in_set_takeD)
  then consider
    (single) "l \<in> set (map (\<lambda>c. [c]) (take (min count (length ?U)) ?U))"
    | (pair) "l \<in> set (pairLabels ?U ?A excluded)"
    by auto
  then show ?thesis
  proof cases
    case single
    then obtain c where "l = [c]" and "c \<in> set ?U"
      by (auto dest: in_set_takeD)
    then show ?thesis
      by (auto simp: set_insertionOrder)
  next
    case pair
    from pairLabels_shape [OF this] show ?thesis
      by (auto simp: set_insertionOrder)
  qed
qed

text \<open>
  C4. For every alphabet, count and exclusion set, no label returned by the label generator
  is exactly an excluded character, and no returned two-character label has an excluded
  character as its second character.
\<close>

theorem generateHintLabels_exclusion:
  "\<forall>l \<in> set (generateHintLabels alphabet count excluded).
     (\<forall>c \<in> excluded. l \<noteq> [c]) \<and> (length l = 2 \<longrightarrow> l ! 1 \<notin> excluded)"
proof
  fix l
  assume "l \<in> set (generateHintLabels alphabet count excluded)"
  from generateHintLabels_cases [OF this]
  show "(\<forall>c \<in> excluded. l \<noteq> [c]) \<and> (length l = 2 \<longrightarrow> l ! 1 \<notin> excluded)"
    by auto
qed

lemma generateHintLabels_example:
  "generateHintLabels (utf16 ''asdfa'') 7 {of_char CHR ''s''} =
     [utf16 ''a'', utf16 ''d'', utf16 ''f'', utf16 ''aa'', utf16 ''ad'', utf16 ''af'', utf16 ''da'']"
  by (simp add: generateHintLabels_def pairLabels_def insertionOrder_def utf16_def)

theorem generateHintLabels_exclusion_witness:
  "utf16 ''ad'' \<in> set (generateHintLabels (utf16 ''asdfa'') 7 {of_char CHR ''s''}) \<and>
   utf16 ''ad'' \<noteq> [of_char CHR ''s''] \<and>
   length (utf16 ''ad'') = 2 \<and>
   utf16 ''ad'' ! 1 \<notin> {of_char CHR ''s''}"
proof -
  have mem: "utf16 ''ad'' \<in> set (generateHintLabels (utf16 ''asdfa'') 7 {of_char CHR ''s''})"
    unfolding generateHintLabels_example by (simp add: utf16_def)
  have len: "length (utf16 ''ad'') = 2"
    by (simp add: utf16_def)
  from generateHintLabels_exclusion [of "utf16 ''asdfa''" 7 "{of_char CHR ''s''}"] mem len
  show ?thesis
    by blast
qed


section \<open>Evaluation\<close>

lemma onCompleteCalls_guarded:
  "isDeactivating c \<or> \<not> isActive c \<Longrightarrow> onCompleteCalls h n c = c"
  by (induction n) (simp_all add: deactivate.simps)

lemma deactivate_unfold:
  "deactivate h c =
     (if isDeactivating c \<or> \<not> isActive c then c
      else (case onComplete h of
              None \<Rightarrow> teardown h (c\<lparr>isDeactivating := True\<rparr>)
            | Some n \<Rightarrow> emit Complete (teardown h (c\<lparr>isDeactivating := True\<rparr>)))
           \<lparr>isDeactivating := False\<rparr>)"
  by (simp add: deactivate.simps Let_def onCompleteCalls_guarded split: option.split)

lemmas matchEval =
  Let_def utf16_def insertionOrder_def generateHintLabels_def pairLabels_def
  asciiLower_def toLowerCase_def caseFold_def isWhiteSpace_def isWordChar_def
  isHighSurrogate_def isLowSurrogate_def regexSyntaxChars_def escapeRegex_def
  advanceStringIndex_def literalRegExp_def stepBackToLeadSurrogate_def regExpScan.simps
  regExpBuiltinExec_def pushMatch_def nextLastIndex_def
  literalMatchLoop.simps canonicalize_def findLiteralMatches_def
  matchKey_def mergeInsert_def mergeMatches_def toFlashMatch_def getRawMatches_def
  conflictCandidates_def collectSearchConflictChars_def isVisible_def findMatches_def

lemmas controllerEval =
  Let_def emit_def applyDimming_def removeDimming_def createSearchPanel_def destroySearchPanel_def
  registerKeyHandler_def unregisterKeyHandler_def registerClickHandler_def
  unregisterClickHandler_def activate_def notifyDecorationUpdate_def teardown_def
  deactivate_unfold sliceString_def findWordStart_def findWordEnd_def wordEndOffset.simps
  calculateJumpPosition_def jumpToMatch_def detectorFindMatches_def updateMatches_def
  isPrintable_def addToSearch_def extendOrSelect_def handlePrintable_def handleKeyDown_def
  newController_def CYRILLIC_TO_LATIN_def MODIFIER_KEYS_def isCyrillic_def convertToLatin_def
  normalizeKeypress_def isModifierKey_def

lemmas exampleEval = exRuntime_def exSettings_def exEditor_def exHost_def

lemma exSearching_eq:
  "exSearching =
     \<lparr>searchString = utf16 ''ab'', isActive = True, isDeactivating = False,
      matches = [\<lparr>index = 0, matchLength = 2, linkText = utf16 ''ab'', letter = utf16 ''a''\<rparr>,
                 \<lparr>index = 3, matchLength = 2, linkText = utf16 ''ab'', letter = utf16 ''s''\<rparr>,
                 \<lparr>index = 7, matchLength = 2, linkText = utf16 ''ab'', letter = utf16 ''aa''\<rparr>],
      keydownHandler = True, clickHandler = True, pyjjCodeCache = Map.empty,
      matchedPrefix = [], prefixShiftHeld = False, lastShiftKey = False, searchPanel = True,
      effects = [ApplyDimming, CreateSearchPanel, AddKeydownListener, AddClickListener,
                 UpdateSearchPanel (utf16 ''a''), DecorationUpdate [] 1 [],
                 UpdateSearchPanel (utf16 ''ab''),
                 DecorationUpdate
                   [\<lparr>index = 0, matchLength = 2, linkText = utf16 ''ab'', letter = utf16 ''a''\<rparr>,
                    \<lparr>index = 3, matchLength = 2, linkText = utf16 ''ab'', letter = utf16 ''s''\<rparr>,
                    \<lparr>index = 7, matchLength = 2, linkText = utf16 ''ab'', letter = utf16 ''aa''\<rparr>] 2 []]\<rparr>"
  by (simp add: exSearching_def controllerEval matchEval exampleEval)


lemmas exampleEval2 = exampleEval exEditor2_def exHost2_def exLabelled_def

lemma exPrefixPending_eq:
  "exPrefixPending =
     \<lparr>searchString = utf16 ''ab'', isActive = True, isDeactivating = False,
      matches = [\<lparr>index = 3, matchLength = 2, linkText = utf16 ''ab'', letter = utf16 ''da''\<rparr>,
                 \<lparr>index = 6, matchLength = 2, linkText = utf16 ''ab'', letter = utf16 ''ds''\<rparr>],
      keydownHandler = True, clickHandler = True, pyjjCodeCache = Map.empty,
      matchedPrefix = utf16 ''d'', prefixShiftHeld = True, lastShiftKey = True, searchPanel = True,
      effects = [UpdateSearchPanel (utf16 ''ab''),
                 DecorationUpdate
                   [\<lparr>index = 3, matchLength = 2, linkText = utf16 ''ab'', letter = utf16 ''da''\<rparr>,
                    \<lparr>index = 6, matchLength = 2, linkText = utf16 ''ab'', letter = utf16 ''ds''\<rparr>]
                   2 (utf16 ''d'')]\<rparr>"
  by (simp add: exPrefixPending_def controllerEval matchEval exampleEval2)

section \<open>Literal matches\<close>

lemma backslash_syntax: "0x5C \<in> set regexSyntaxChars"
  by (simp add: regexSyntaxChars_def)

lemma escapeRegex_Cons:
  "escapeRegex (c # cs) = (if c \<in> set regexSyntaxChars then [0x5C, c] else [c]) @ escapeRegex cs"
  by (simp add: escapeRegex_def)

lemma literalPattern_escapeRegex: "literalPattern (escapeRegex s) = Some s"
proof (induction s)
  case Nil
  show ?case by (simp add: escapeRegex_def)
next
  case (Cons c cs)
  show ?case
  proof (cases "c \<in> set regexSyntaxChars")
    case True
    with Cons show ?thesis by (simp add: escapeRegex_Cons)
  next
    case False
    with backslash_syntax have "c \<noteq> 0x5C" by auto
    with False Cons show ?thesis
      by (cases "escapeRegex cs") (simp_all add: escapeRegex_Cons)
  qed
qed

lemma regExpScan_result:
  "regExpScan R S i = Some (matchIndex, n, group1) \<Longrightarrow>
     i \<le> matchIndex \<and> matchIndex \<le> length S \<and> matcher R S matchIndex = Some (n, group1)"
proof (induction R S i rule: regExpScan.induct)
  case (1 R S i)
  show ?case
  proof (cases "length S < i")
    case True
    with "1.prems" show ?thesis by (simp add: regExpScan.simps)
  next
    case False
    show ?thesis
    proof (cases "matcher R S i")
      case None
      with False "1.prems"
      have "regExpScan R S (advanceStringIndex S i (fullUnicode R)) = Some (matchIndex, n, group1)"
        by (simp add: regExpScan.simps [of R S i])
      from "1.IH" [OF False None this] advanceStringIndex_greater [of i S "fullUnicode R"]
      show ?thesis by simp
    next
      case (Some r)
      with False "1.prems" show ?thesis
        by (cases r) (simp add: regExpScan.simps [of R S i])
    qed
  qed
qed

lemma stepBackToLeadSurrogate_bounds:
  "stepBackToLeadSurrogate S i \<le> i" "i \<le> Suc (stepBackToLeadSurrogate S i)"
  by (simp_all add: stepBackToLeadSurrogate_def)

lemma codePointAt_pair:
  "Suc k < length S \<Longrightarrow> isHighSurrogate (S ! k) \<Longrightarrow> isLowSurrogate (S ! Suc k) \<Longrightarrow>
     \<exists>c. codePointAt (drop k S) = Some (c, 2)"
proof -
  assume k: "Suc k < length S" and h: "isHighSurrogate (S ! k)" and l: "isLowSurrogate (S ! Suc k)"
  from k have "drop k S = S ! k # S ! Suc k # drop (Suc (Suc k)) S"
    by (simp add: Cons_nth_drop_Suc Suc_lessD)
  with h l show ?thesis by simp
qed

lemma matchLiteral_nonempty:
  "matchLiteral canon (p # ps) input = Some n \<Longrightarrow> \<exists>c k. codePointAt input = Some (c, k) \<and> 0 < k \<and> k \<le> n"
  by (cases input rule: codePointAt.cases) (auto split: if_splits)

lemma regExpBuiltinExec_literal_progress:
  assumes pat: "pat \<noteq> []"
    and ex: "regExpBuiltinExec (literalRegExp canon pat) S lastIndex = Some (matchIndex, n, group1)"
  shows "lastIndex < matchIndex + n \<and> lastIndex \<le> length S \<and> 0 < n"
proof -
  from ex have len: "lastIndex \<le> length S"
    by (simp add: regExpBuiltinExec_def split: if_splits)
  let ?start = "stepBackToLeadSurrogate S lastIndex"
  from ex len have "regExpScan (literalRegExp canon pat) S ?start = Some (matchIndex, n, group1)"
    by (simp add: regExpBuiltinExec_def literalRegExp_def)
  from regExpScan_result [OF this]
  have ge: "?start \<le> matchIndex"
    and m: "matchLiteral canon pat (drop matchIndex S) = Some n"
    by (auto simp: literalRegExp_def)
  from pat obtain p ps where "pat = p # ps" by (cases pat) auto
  with m matchLiteral_nonempty [of canon p ps "drop matchIndex S" n]
  obtain c k where cp: "codePointAt (drop matchIndex S) = Some (c, k)" and k: "0 < k" "k \<le> n"
    by auto
  show ?thesis
  proof (cases "matchIndex < lastIndex")
    case False
    with k len show ?thesis by simp
  next
    case True
    with ge have st: "?start < lastIndex" by simp
    then have sb: "0 < lastIndex" "lastIndex < length S" "isHighSurrogate (S ! (lastIndex - 1))"
      "isLowSurrogate (S ! lastIndex)" "?start = lastIndex - 1"
      by (simp_all add: stepBackToLeadSurrogate_def split: if_splits)
    with ge True have mi: "matchIndex = lastIndex - 1" by simp
    from sb codePointAt_pair [of "lastIndex - 1" S]
    obtain c' where "codePointAt (drop (lastIndex - 1) S) = Some (c', 2)" by auto
    with cp mi have "k = 2" by simp
    with k mi sb len show ?thesis by simp
  qed
qed

lemma nextLastIndex_nonempty: "0 < n \<Longrightarrow> nextLastIndex matchIndex n = matchIndex + n"
  by (simp add: nextLastIndex_def Let_def)

lemma literalMatchLoop_returns:
  assumes pat: "pat \<noteq> []"
  shows "\<exists>found. literalMatchLoop (literalRegExp canon pat) content baseIndex lastIndex ms = Some found \<and>
           length found \<le> length ms + (Suc (length content) - lastIndex)"
proof (induction "Suc (length content) - lastIndex" arbitrary: lastIndex ms rule: less_induct)
  case less
  show ?case
  proof (cases "regExpBuiltinExec (literalRegExp canon pat) content lastIndex")
    case None
    then show ?thesis
      by (subst literalMatchLoop.simps) simp
  next
    case (Some r)
    obtain matchIndex n group1 where r: "r = (matchIndex, n, group1)"
      by (cases r)
    from regExpBuiltinExec_literal_progress [OF pat Some [unfolded r]]
    have b: "lastIndex < matchIndex + n" "lastIndex \<le> length content" "0 < n"
      by simp_all
    then have nx: "nextLastIndex matchIndex n = matchIndex + n"
      by (simp add: nextLastIndex_nonempty)
    with b have dec: "Suc (length content) - nextLastIndex matchIndex n < Suc (length content) - lastIndex"
      by simp
    from less [OF dec, of "pushMatch content baseIndex matchIndex n ms"]
    obtain found where
      f: "literalMatchLoop (literalRegExp canon pat) content baseIndex (nextLastIndex matchIndex n)
            (pushMatch content baseIndex matchIndex n ms) = Some found"
      and l: "length found \<le> length (pushMatch content baseIndex matchIndex n ms)
                + (Suc (length content) - nextLastIndex matchIndex n)"
      by blast
    have "literalMatchLoop (literalRegExp canon pat) content baseIndex lastIndex ms = Some found"
      by (subst literalMatchLoop.simps) (simp add: Some r f)
    moreover from l dec have "length found \<le> length ms + (Suc (length content) - lastIndex)"
      by (simp add: pushMatch_def)
    ultimately show ?thesis
      by blast
  qed
qed

lemma codePoints_nonempty: "search \<noteq> [] \<Longrightarrow> codePoints search \<noteq> []"
  by (cases search rule: codePoints.cases) auto

lemma findLiteralMatches_loop:
  assumes "search \<noteq> []"
  shows "literalMatchLoop (literalRegExp (canonicalize rt st) (codePoints search)) content baseIndex 0 []
     = Some (findLiteralMatches rt st search content baseIndex)"
proof -
  from literalMatchLoop_returns [OF codePoints_nonempty [OF assms], of "canonicalize rt st" content baseIndex 0 "[]"]
  obtain found where
    "literalMatchLoop (literalRegExp (canonicalize rt st) (codePoints search)) content baseIndex 0 [] = Some found"
    by blast
  then show ?thesis
    by (simp add: findLiteralMatches_def literalPattern_escapeRegex)
qed


lemma regExpBuiltinExec_empty:
  "lastIndex \<le> length S \<Longrightarrow>
     regExpBuiltinExec (literalRegExp canon []) S lastIndex
       = Some (stepBackToLeadSurrogate S lastIndex, 0, None)"
  using stepBackToLeadSurrogate_bounds(1) [of S lastIndex]
  by (simp add: regExpBuiltinExec_def literalRegExp_def
        regExpScan.simps [of _ S "stepBackToLeadSurrogate S lastIndex"])

lemma stepBackToLeadSurrogate_pair:
  assumes "Suc k < length S" "isHighSurrogate (S ! k)" "isLowSurrogate (S ! Suc k)"
    and "lastIndex \<le> Suc k"
  shows "stepBackToLeadSurrogate S lastIndex \<le> k"
  using assms by (cases "lastIndex = Suc k") (auto simp: stepBackToLeadSurrogate_def)

lemma literalMatchLoop_empty_pair:
  assumes pair: "Suc k < length content" "isHighSurrogate (content ! k)" "isLowSurrogate (content ! Suc k)"
    and start: "lastIndex \<le> Suc k"
  shows "literalMatchLoop (literalRegExp canon []) content baseIndex lastIndex ms = None"
proof (cases "literalMatchLoop (literalRegExp canon []) content baseIndex lastIndex ms")
  case None
  then show ?thesis .
next
  case (Some result)
  have "literalRegExp canon [] = literalRegExp canon [] \<longrightarrow> content = content \<longrightarrow>
          lastIndex \<le> Suc k \<longrightarrow> False"
  proof (rule literalMatchLoop.raw_induct
      [where P = "\<lambda>regex input b i found y.
                    regex = literalRegExp canon [] \<longrightarrow> input = content \<longrightarrow> i \<le> Suc k \<longrightarrow> False",
       OF _ Some], goal_cases)
    case (1 loop regex input b i found y)
    show ?case
    proof (intro impI)
      assume regex: "regex = literalRegExp canon []" and input: "input = content" and i: "i \<le> Suc k"
      let ?s = "stepBackToLeadSurrogate content i"
      from i pair have "i \<le> length content" by simp
      from regExpBuiltinExec_empty [OF this, of canon]
      have ex: "regExpBuiltinExec regex input i = Some (?s, 0, None)"
        by (simp add: regex input)
      from stepBackToLeadSurrogate_pair [OF pair i]
      have nx: "nextLastIndex ?s 0 \<le> Suc k"
        by (simp add: nextLastIndex_def)
      from 1(2) ex
      have "loop regex input b (nextLastIndex ?s 0) (pushMatch input b ?s 0 found) = Some y"
        by simp
      from 1(1) [OF this] regex input nx show False
        by simp
    qed
  qed
  with start show ?thesis
    by simp
qed

lemma regexpBlocksLoop_empty_pair:
  assumes pair: "isHighSurrogate h" "isLowSurrogate l"
    and start: "regexLastIndex \<le> 1"
    and seen: "lastIndex = 0 \<or> (lastIndex = - 1 \<and> matchCount < MAX_MATCHES)"
  shows "regexpBlocksLoop rt (literalRegExp canon []) (h # l # rest) offset regexLastIndex lastIndex
           matchCount linksWithIndex = None"
proof (cases "regexpBlocksLoop rt (literalRegExp canon []) (h # l # rest) offset regexLastIndex lastIndex
           matchCount linksWithIndex")
  case None
  then show ?thesis .
next
  case (Some result)
  have "literalRegExp canon [] = literalRegExp canon [] \<longrightarrow> h # l # rest = h # l # rest \<longrightarrow>
          regexLastIndex \<le> 1 \<longrightarrow>
          (lastIndex = 0 \<or> (lastIndex = - 1 \<and> matchCount < MAX_MATCHES)) \<longrightarrow> False"
  proof (rule regexpBlocksLoop.raw_induct
      [where P = "\<lambda>r regex input off i j count links y.
                    regex = literalRegExp canon [] \<longrightarrow> input = h # l # rest \<longrightarrow> i \<le> 1 \<longrightarrow>
                    (j = 0 \<or> (j = - 1 \<and> count < MAX_MATCHES)) \<longrightarrow> False",
       OF _ Some], goal_cases)
    case (1 loop r regex input off i j count links y)
    show ?case
    proof (intro impI)
      assume regex: "regex = literalRegExp canon []" and input: "input = h # l # rest" and i: "i \<le> 1"
        and j: "j = 0 \<or> (j = - 1 \<and> count < MAX_MATCHES)"
      from i pair have s: "stepBackToLeadSurrogate (h # l # rest) i = 0"
        by (cases "i = 0") (simp_all add: stepBackToLeadSurrogate_def)
      from i have "i \<le> length (h # l # rest)" by simp
      from regExpBuiltinExec_empty [OF this, of canon] s
      have ex: "regExpBuiltinExec regex input i = Some (0, 0, None)"
        by (simp add: regex input)
      show False
      proof (cases "j = 0")
        case True
        with 1(2) ex have "loop r regex input off 1 j count links = Some y"
          by simp
        from 1(1) [OF this] regex input True show False
          by simp
      next
        case False
        with j have j': "j = - 1" "count < MAX_MATCHES" by simp_all
        with 1(2) ex
        have "loop r regex input off 0 0 (count + 1)
                (links @ [\<lparr>rl_index = adjustIndexForFormatting r input 0 [] + off, rl_linkText = []\<rparr>]) = Some y"
          by (simp add: Let_def)
        from 1(1) [OF this] regex input show False
          by simp
      qed
    qed
  qed
  with start seen show ?thesis
    by simp
qed

lemma literalMatchLoop_empty_returns:
  assumes bmp: "\<And>k. Suc k < length content \<Longrightarrow>
                  \<not> (isHighSurrogate (content ! k) \<and> isLowSurrogate (content ! Suc k))"
  shows "\<exists>found. literalMatchLoop (literalRegExp canon []) content baseIndex lastIndex ms = Some found"
proof (induction "Suc (length content) - lastIndex" arbitrary: lastIndex ms rule: less_induct)
  case less
  show ?case
  proof (cases "lastIndex \<le> length content")
    case False
    then have "regExpBuiltinExec (literalRegExp canon []) content lastIndex = None"
      by (simp add: regExpBuiltinExec_def)
    then show ?thesis
      by (subst literalMatchLoop.simps) simp
  next
    case True
    have s: "stepBackToLeadSurrogate content lastIndex = lastIndex"
    proof (cases "0 < lastIndex \<and> lastIndex < length content")
      case False
      then show ?thesis by (auto simp: stepBackToLeadSurrogate_def)
    next
      case inside: True
      with bmp [of "lastIndex - 1"] show ?thesis
        by (auto simp: stepBackToLeadSurrogate_def)
    qed
    from regExpBuiltinExec_empty [OF True, of canon] s
    have ex: "regExpBuiltinExec (literalRegExp canon []) content lastIndex = Some (lastIndex, 0, None)"
      by simp
    from True have "Suc (length content) - Suc lastIndex < Suc (length content) - lastIndex"
      by simp
    from less [OF this, of "pushMatch content baseIndex lastIndex 0 ms"]
    obtain found where
      "literalMatchLoop (literalRegExp canon []) content baseIndex (Suc lastIndex)
         (pushMatch content baseIndex lastIndex 0 ms) = Some found"
      by blast
    with ex have "literalMatchLoop (literalRegExp canon []) content baseIndex lastIndex ms = Some found"
      by (subst literalMatchLoop.simps) (simp add: nextLastIndex_def)
    then show ?thesis
      by blast
  qed
qed

lemma literalMatchLoop_empty_example:
  "literalMatchLoop (literalRegExp (canonicalize exRuntime exSettings) (codePoints [])) (utf16 ''ab'') 0 0 [] =
     Some [\<lparr>index = 0, matchLength = 0, linkText = []\<rparr>,
           \<lparr>index = 1, matchLength = 0, linkText = []\<rparr>,
           \<lparr>index = 2, matchLength = 0, linkText = []\<rparr>]"
  by (simp add: matchEval exampleEval)

lemma regexpBlocksLoop_empty_example:
  "regexpBlocksLoop exRuntime (literalRegExp (canonicalize exRuntime exSettings) []) (utf16 ''ab'') 0 0 (- 1) 0 [] =
     Some [\<lparr>rl_index = 0, rl_linkText = []\<rparr>, \<lparr>rl_index = 1, rl_linkText = []\<rparr>,
           \<lparr>rl_index = 2, rl_linkText = []\<rparr>]"
  by (simp add: matchEval exampleEval regexpBlocksLoop.simps adjustIndexForFormatting_def MAX_MATCHES_def)

text \<open>
  C7, at an input where neither loop returns. The claim is that the loop of
  \<open>findLiteralMatches\<close> ends on every search string and every content, because
  \<open>lastIndex\<close> is advanced by one after a match of length zero. For the empty search
  string the pattern is the empty literal, which matches with length zero at every index.
  On the content U+1F600, the surrogate pair \<open>D83D DE00\<close>, \<open>exec\<close> from
  \<open>lastIndex = 1\<close> starts at the lead surrogate and returns the match at index \<open>0\<close>,
  which sets \<open>lastIndex\<close> to \<open>0\<close>; the step \<open>regex.lastIndex++\<close> makes it \<open>1\<close>
  again. The loop of \<open>findLiteralMatches\<close> never leaves these two states, pushing a match
  in each round, and the loop of \<open>extractRegexpBlocks\<close>, whose protection compares with
  the same remembered \<open>lastIndex\<close>, never leaves them either: both runs have no result.
  For every search string that is not empty the loop of \<open>findLiteralMatches\<close> returns
  (\<open>literalMatchLoop_returns\<close>), and for the empty one it returns on a content without a
  surrogate pair (\<open>literalMatchLoop_empty_returns\<close>) and on no other
  (\<open>literalMatchLoop_empty_pair\<close>).
\<close>

theorem zero_length_step_astral:
  "literalPattern (escapeRegex []) = Some [] \<and>
   regExpBuiltinExec (literalRegExp (canonicalize rt st) (codePoints [])) [0xD83D, 0xDE00] 1
     = Some (0, 0, None) \<and>
   nextLastIndex 0 0 = 1 \<and>
   literalMatchLoop (literalRegExp (canonicalize rt st) (codePoints [])) [0xD83D, 0xDE00] baseIndex 0 []
     = None \<and>
   regexpBlocksLoop rt (literalRegExp (canonicalize rt st) (codePoints [])) [0xD83D, 0xDE00] offset 0 (- 1) 0 []
     = None"
proof -
  have h: "isHighSurrogate 0xD83D" and l: "isLowSurrogate 0xDE00"
    by (simp_all add: isHighSurrogate_def isLowSurrogate_def)
  have "literalPattern (escapeRegex []) = Some []"
    by (simp add: escapeRegex_def)
  moreover
  have "regExpBuiltinExec (literalRegExp (canonicalize rt st) []) [0xD83D, 0xDE00] 1 = Some (0, 0, None)"
    using regExpBuiltinExec_empty [of 1 "[0xD83D, 0xDE00]" "canonicalize rt st"] h l
    by (simp add: stepBackToLeadSurrogate_def)
  moreover have "nextLastIndex 0 0 = 1"
    by (simp add: nextLastIndex_def)
  moreover have "literalMatchLoop (literalRegExp (canonicalize rt st) []) [0xD83D, 0xDE00] baseIndex 0 [] = None"
    using literalMatchLoop_empty_pair [of 0 "[0xD83D, 0xDE00]" 0 "canonicalize rt st" baseIndex "[]"] h l
    by simp
  moreover have "regexpBlocksLoop rt (literalRegExp (canonicalize rt st) []) [0xD83D, 0xDE00] offset 0 (- 1) 0 [] = None"
    using regexpBlocksLoop_empty_pair [of "0xD83D" "0xDE00" 0 "- 1" 0 rt "canonicalize rt st" "[]" offset "[]"] h l
    by (simp add: MAX_MATCHES_def)
  ultimately show ?thesis
    by simp
qed


section \<open>Phonetic matches\<close>

lemma getPyjjCodesForChar_result:
  "fst (getPyjjCodesForChar rt ch cache) = codesVia rt cache ch"
  "codesVia rt (snd (getPyjjCodesForChar rt ch cache)) = codesVia rt cache"
  by (auto simp: getPyjjCodesForChar_def codesVia_def Let_def fun_eq_iff split: option.splits)

lemma tokenMatchesCodes_Nil: "\<not> tokenMatchesCodes [] token"
  by (cases token) simp_all

lemma matchesToken_result:
  "fst (matchesToken rt ch token cache) = tokenMatchesCodes (codesVia rt cache ch) token"
  "codesVia rt (snd (matchesToken rt ch token cache)) = codesVia rt cache"
proof -
  obtain codes cache' where g: "getPyjjCodesForChar rt ch cache = (codes, cache')"
    by (cases "getPyjjCodesForChar rt ch cache")
  with getPyjjCodesForChar_result [of rt ch cache]
  have c: "codes = codesVia rt cache ch" and k: "codesVia rt cache' = codesVia rt cache"
    by simp_all
  show "fst (matchesToken rt ch token cache) = tokenMatchesCodes (codesVia rt cache ch) token"
    using g c tokenMatchesCodes_Nil [of token]
    by (cases token) (auto simp: matchesToken_def)
  show "codesVia rt (snd (matchesToken rt ch token cache)) = codesVia rt cache"
    using g k by (cases token) (auto simp: matchesToken_def)
qed

lemma matchTokens_result:
  "fst (matchTokens rt chars tokens cache) \<longleftrightarrow>
     length tokens \<le> length chars \<and>
     list_all2 (\<lambda>ch token. tokenMatchesCodes (codesVia rt cache ch) token)
       (take (length tokens) (map ci_char chars)) tokens"
  "codesVia rt (snd (matchTokens rt chars tokens cache)) = codesVia rt cache"
proof (induction rt chars tokens cache rule: matchTokens.induct)
  case (1 rt chars cache)
  { case 1 show ?case by simp }
  { case 2 show ?case by simp }
next
  case (2 rt token tokens cache)
  { case 1 show ?case by simp }
  { case 2 show ?case by simp }
next
  case (3 rt info chars token tokens cache)
  obtain ok cache' where m: "matchesToken rt (ci_char info) token cache = (ok, cache')"
    by (cases "matchesToken rt (ci_char info) token cache")
  with matchesToken_result [of rt "ci_char info" token cache]
  have ok: "ok = tokenMatchesCodes (codesVia rt cache (ci_char info)) token"
    and k: "codesVia rt cache' = codesVia rt cache"
    by simp_all
  { case 1
    show ?case
    proof (cases ok)
      case True
      with "3.IH"(1) [OF m [symmetric]] m k ok show ?thesis
        by simp
    next
      case False
      with m ok show ?thesis by simp
    qed }
  { case 2
    show ?case
    proof (cases ok)
      case True
      with "3.IH"(2) [OF m [symmetric]] m k show ?thesis
        by simp
    next
      case False
      with m k show ?thesis by simp
    qed }
qed


lemma matchTokens_drop:
  "start + length tokens \<le> length chars \<Longrightarrow>
   fst (matchTokens rt (drop start chars) tokens cache) \<longleftrightarrow>
     tokensMatchAt (codesVia rt cache) (map ci_char chars) tokens start"
  by (auto simp: matchTokens_result tokensMatchAt_def drop_map)

lemma pyjjLoop_result:
  "fst (pyjjLoop rt content baseIndex chars tokens start cache ms) =
     ms @ map (\<lambda>p. pyjjMatchAt content baseIndex chars (p + length tokens) p)
            (filter (tokensMatchAt (codesVia rt cache) (map ci_char chars) tokens)
               [start..<Suc (length chars) - length tokens])"
  "codesVia rt (snd (pyjjLoop rt content baseIndex chars tokens start cache ms)) = codesVia rt cache"
proof (induction rt content baseIndex chars tokens start cache ms rule: pyjjLoop.induct)
  case (1 rt content baseIndex chars tokens start cache ms)
  obtain ok cache' where m: "matchTokens rt (drop start chars) tokens cache = (ok, cache')"
    by (cases "matchTokens rt (drop start chars) tokens cache")
  with matchTokens_drop [of start tokens chars rt cache] matchTokens_result(2) [of rt "drop start chars" tokens cache]
  have ok: "start + length tokens \<le> length chars \<Longrightarrow>
              ok = tokensMatchAt (codesVia rt cache) (map ci_char chars) tokens start"
    and k: "codesVia rt cache' = codesVia rt cache"
    by simp_all
  { case 1
    show ?case
    proof (cases "start + length tokens \<le> length chars")
      case False
      then have "[start..<Suc (length chars) - length tokens] = []"
        by simp
      with False show ?thesis
        by (simp add: pyjjLoop.simps [of rt content baseIndex chars tokens start])
    next
      case True
      then have range: "[start..<Suc (length chars) - length tokens]
                  = start # [start + 1..<Suc (length chars) - length tokens]"
        by (simp add: upt_conv_Cons)
      show ?thesis
      proof (cases ok)
        case True
        with "1.IH"(3) [OF \<open>start + length tokens \<le> length chars\<close> m [symmetric]]
          m k ok \<open>start + length tokens \<le> length chars\<close> range
        show ?thesis
          by (simp add: pyjjLoop.simps [of rt content baseIndex chars tokens start])
      next
        case False
        with "1.IH"(1) [OF \<open>start + length tokens \<le> length chars\<close> m [symmetric]]
          m k ok \<open>start + length tokens \<le> length chars\<close> range
        show ?thesis
          by (simp add: pyjjLoop.simps [of rt content baseIndex chars tokens start])
      qed
    qed }
  { case 2
    show ?case
    proof (cases "start + length tokens \<le> length chars")
      case False
      then show ?thesis
        by (simp add: pyjjLoop.simps [of rt content baseIndex chars tokens start])
    next
      case True
      show ?thesis
      proof (cases ok)
        case ok': True
        with "1.IH"(4) [OF True m [symmetric]] m k True
        show ?thesis
          by (simp add: pyjjLoop.simps [of rt content baseIndex chars tokens start])
      next
        case False
        with "1.IH"(2) [OF True m [symmetric]] m k True
        show ?thesis
          by (simp add: pyjjLoop.simps [of rt content baseIndex chars tokens start])
      qed
    qed }
qed


lemma map_ci_char_buildCharInfosFrom: "map ci_char (buildCharInfosFrom offset chs) = chs"
  by (induction chs arbitrary: offset) simp_all

lemma length_buildCharInfosFrom: "length (buildCharInfosFrom offset chs) = length chs"
  by (induction chs arbitrary: offset) simp_all

lemma ci_start_nth:
  "p < length chs \<Longrightarrow>
     ci_start (buildCharInfosFrom offset chs ! p) = offset + length (concat (take p chs))"
proof (induction chs arbitrary: offset p)
  case Nil
  then show ?case by simp
next
  case (Cons ch chs)
  then show ?case
    by (cases p) simp_all
qed

lemma stringIterator_nonempty: "ch \<in> set (stringIterator s) \<Longrightarrow> ch \<noteq> []"
  by (induction s rule: stringIterator.induct) (auto split: if_splits)

lemma offset_strict_mono:
  assumes nonempty: "\<forall>ch \<in> set chs. ch \<noteq> []" and "p < q" and "p < length chs"
  shows "length (concat (take p chs)) < length (concat (take q chs))"
proof -
  from \<open>p < q\<close> have "take q chs = take p chs @ take (q - p) (drop p chs)"
    by (metis add_diff_inverse_nat less_imp_le_nat not_less take_add)
  moreover from \<open>p < q\<close> \<open>p < length chs\<close> have "take (q - p) (drop p chs) \<noteq> []"
    by simp
  then obtain ch rest where r: "take (q - p) (drop p chs) = ch # rest"
    by (cases "take (q - p) (drop p chs)") simp_all
  then have "ch \<in> set chs"
    by (metis in_set_dropD in_set_takeD list.set_intros(1))
  with nonempty have "ch \<noteq> []" by blast
  ultimately show ?thesis using r by simp
qed

lemma toLowerCase_letters: "list_all isAsciiLetter s \<Longrightarrow> toLowerCase rt s = map asciiLower s"
proof -
  assume "list_all isAsciiLetter s"
  then have "list_all (\<lambda>c. c < 128) s"
    by (induction s) (auto simp: isAsciiLetter_def)
  then show ?thesis by (simp add: toLowerCase_def)
qed

lemma pyjjTokens_nonempty: "s \<noteq> [] \<Longrightarrow> pyjjTokens s \<noteq> []"
  by (cases s rule: pyjjTokens.cases) simp_all

lemma findPyjjMatches_eq:
  "fst (findPyjjMatchesInContent rt search content baseIndex cache) =
     (if search \<noteq> [] \<and> list_all isAsciiLetter search
      then map (\<lambda>p. pyjjMatchAt content baseIndex (buildCharInfos content)
                      (p + length (pyjjTokens (map asciiLower search))) p)
             (filter (tokensMatchAt (codesVia rt cache) (stringIterator content)
                        (pyjjTokens (map asciiLower search)))
                [0..<Suc (length (stringIterator content)) - length (pyjjTokens (map asciiLower search))])
      else [])"
proof (cases "search \<noteq> [] \<and> list_all isAsciiLetter search")
  case False
  then show ?thesis
    by (auto simp: findPyjjMatchesInContent_def parsePyjjTokens_def)
next
  case True
  let ?tokens = "pyjjTokens (map asciiLower search)"
  let ?chars = "buildCharInfos content"
  from True have p: "parsePyjjTokens rt search = Some ?tokens"
    by (simp add: parsePyjjTokens_def toLowerCase_letters)
  from True have ne: "?tokens \<noteq> []"
    by (simp add: pyjjTokens_nonempty)
  have c: "map ci_char ?chars = stringIterator content" "length ?chars = length (stringIterator content)"
    by (simp_all add: buildCharInfos_def map_ci_char_buildCharInfosFrom length_buildCharInfosFrom)
  show ?thesis
  proof (cases "length ?chars < length ?tokens")
    case short: True
    then have "[0..<Suc (length (stringIterator content)) - length ?tokens] = []"
      by (simp add: c)
    with True p ne short show ?thesis
      by (simp add: findPyjjMatchesInContent_def Let_def)
  next
    case False
    with True p ne pyjjLoop_result(1) [of rt content baseIndex ?chars ?tokens 0 cache "[]"]
    show ?thesis
      by (simp add: findPyjjMatchesInContent_def Let_def c)
  qed
qed

lemma codesVia_findPyjjMatches:
  "codesVia rt (snd (findPyjjMatchesInContent rt search content baseIndex cache)) = codesVia rt cache"
  by (simp add: findPyjjMatchesInContent_def Let_def pyjjLoop_result(2) split: option.split)

lemma index_pyjjMatchAt:
  "p < length (stringIterator content) \<Longrightarrow>
     index (pyjjMatchAt content baseIndex (buildCharInfos content) cursor p)
       = baseIndex + length (concat (take p (stringIterator content)))"
  by (simp add: pyjjMatchAt_def Let_def buildCharInfos_def ci_start_nth)

lemma offset_inj:
  assumes "p < length (stringIterator content)"
    and "length (concat (take p (stringIterator content))) = length (concat (take q (stringIterator content)))"
  shows "q = p"
proof (rule ccontr)
  assume "q \<noteq> p"
  then have "p \<noteq> q" by auto
  then consider "p < q" | "q < p" by linarith
  then show False
  proof cases
    case 1
    from offset_strict_mono [OF _ 1 assms(1)] stringIterator_nonempty assms(2) show False
      by (metis less_irrefl)
  next
    case 2
    with assms(1) have "q < length (stringIterator content)" by simp
    from offset_strict_mono [OF _ 2 this] stringIterator_nonempty assms(2) show False
      by (metis less_irrefl)
  qed
qed

lemmas pyjjEval =
  TONE_TO_ASCII_def normalizePinyin_def endsWith_def startsWith_def isLineTerminator_def
  pyjjRules_def aeLeading_def compressForm_def pinyinForms_def addPyjjCode_def pinyinToPyjjCodes_def
  isHanCharacter_def computePyjjCodes_def codesVia_def isAsciiLetter_def
  buildCharInfos_def pyjjMatchAt_def tokensMatchAt_def phoneticMatchAsStated_def

lemmas exampleEvalPy = exampleEval exPinyin_def exPyRuntime_def exPySettings_def

lemma exCodes: "codesVia exPyRuntime Map.empty [0x4E2D] = [utf16 ''vy'']"
  "codesVia exPyRuntime Map.empty [0x56FD] = [utf16 ''go'']"
  by (simp_all add: pyjjEval matchEval exampleEvalPy)

text \<open>
  C6, as amended. For every search string, content and cache, the phonetic matcher returns,
  in ascending order of the character position \<open>p\<close>, one match for every \<open>p\<close> at
  which the tokens match, and nothing else: there is a match starting at the character
  position \<open>p\<close> (its index is the base index plus the code units before the \<open>p\<close>-th
  character) if and only if the search string is a non-empty string of ASCII letters and,
  with the lowercased search string split left to right into two-character tokens and a
  dangling single character, every token matches its character from \<open>p\<close> on: a
  two-character token when it is in the character's code list, the dangling token when it is
  a prefix of a code of the list. A search string with a character that is no letter has no
  phonetic match.
\<close>

theorem findPyjjMatches_characterised:
  "fst (findPyjjMatchesInContent rt search content baseIndex cache) =
     (if search \<noteq> [] \<and> list_all isAsciiLetter search
      then map (\<lambda>p. pyjjMatchAt content baseIndex (buildCharInfos content)
                      (p + length (pyjjTokens (map asciiLower search))) p)
             (filter (tokensMatchAt (codesVia rt cache) (stringIterator content)
                        (pyjjTokens (map asciiLower search)))
                [0..<Suc (length (stringIterator content)) - length (pyjjTokens (map asciiLower search))])
      else []) \<and>
   ((\<exists>m \<in> set (fst (findPyjjMatchesInContent rt search content baseIndex cache)).
       index m = baseIndex + length (concat (take p (stringIterator content))))
      \<and> p < length (stringIterator content)
    \<longleftrightarrow> search \<noteq> [] \<and> list_all isAsciiLetter search \<and>
        tokensMatchAt (codesVia rt cache) (stringIterator content)
          (pyjjTokens (map asciiLower search)) p) \<and>
   (\<not> list_all isAsciiLetter search \<longrightarrow>
      fst (findPyjjMatchesInContent rt search content baseIndex cache) = [])"
proof (intro conjI)
  let ?tokens = "pyjjTokens (map asciiLower search)"
  let ?chars = "stringIterator content"
  let ?found = "fst (findPyjjMatchesInContent rt search content baseIndex cache)"
  let ?P = "tokensMatchAt (codesVia rt cache) ?chars ?tokens"
  show eq: "?found =
     (if search \<noteq> [] \<and> list_all isAsciiLetter search
      then map (\<lambda>p. pyjjMatchAt content baseIndex (buildCharInfos content) (p + length ?tokens) p)
             (filter ?P [0..<Suc (length ?chars) - length ?tokens])
      else [])"
    by (rule findPyjjMatches_eq)
  show "\<not> list_all isAsciiLetter search \<longrightarrow> ?found = []"
    by (simp add: findPyjjMatches_eq)
  show "((\<exists>m \<in> set ?found. index m = baseIndex + length (concat (take p ?chars)))
          \<and> p < length ?chars)
        \<longleftrightarrow> search \<noteq> [] \<and> list_all isAsciiLetter search \<and> ?P p"
  proof (cases "search \<noteq> [] \<and> list_all isAsciiLetter search")
    case False
    then show ?thesis by (auto simp: findPyjjMatches_eq)
  next
    case True
    then have ne: "?tokens \<noteq> []"
      by (simp add: pyjjTokens_nonempty)
    have found: "?found = map (\<lambda>p. pyjjMatchAt content baseIndex (buildCharInfos content) (p + length ?tokens) p)
             (filter ?P [0..<Suc (length ?chars) - length ?tokens])"
      using True by (simp add: findPyjjMatches_eq)
    have inrange: "q < length ?chars" if "?P q" for q
      using that ne by (cases ?tokens) (auto simp: tokensMatchAt_def)
    show ?thesis
    proof
      assume l: "(\<exists>m \<in> set ?found. index m = baseIndex + length (concat (take p ?chars)))
                   \<and> p < length ?chars"
      then obtain q where q: "?P q"
        and i: "index (pyjjMatchAt content baseIndex (buildCharInfos content) (q + length ?tokens) q)
                  = baseIndex + length (concat (take p ?chars))"
        unfolding found by auto
      from i inrange [OF q] have "length (concat (take q ?chars)) = length (concat (take p ?chars))"
        by (simp add: index_pyjjMatchAt)
      with offset_inj [of q content p] inrange [OF q] have "p = q"
        by auto
      with q True show "search \<noteq> [] \<and> list_all isAsciiLetter search \<and> ?P p"
        by simp
    next
      assume r: "search \<noteq> [] \<and> list_all isAsciiLetter search \<and> ?P p"
      then have P: "?P p" by simp
      from inrange [OF P] have lt: "p < length ?chars" .
      from P have "p < Suc (length ?chars) - length ?tokens"
        by (auto simp: tokensMatchAt_def)
      with P have "pyjjMatchAt content baseIndex (buildCharInfos content) (p + length ?tokens) p \<in> set ?found"
        unfolding found by auto
      with lt show "(\<exists>m \<in> set ?found. index m = baseIndex + length (concat (take p ?chars)))
                   \<and> p < length ?chars"
        using index_pyjjMatchAt [OF lt] by blast
    qed
  qed
qed


theorem findPyjjMatches_characterised_witness:
  "fst (findPyjjMatchesInContent exPyRuntime (utf16 ''vygo'') [0x4E2D, 0x56FD, 0x4E2D] 10 Map.empty)
     = [\<lparr>index = 10, matchLength = 2, linkText = [0x4E2D, 0x56FD]\<rparr>] \<and>
   fst (findPyjjMatchesInContent exPyRuntime (utf16 ''Vyg'') [0x4E2D, 0x56FD, 0x4E2D] 10 Map.empty)
     = [\<lparr>index = 10, matchLength = 2, linkText = [0x4E2D, 0x56FD]\<rparr>] \<and>
   fst (findPyjjMatchesInContent exPyRuntime (utf16 ''v.'') [0x4E2D, 0x56FD, 0x4E2D] 10 Map.empty) = []"
proof -
  note codes = exCodes
  note t = findPyjjMatches_characterised [where rt = exPyRuntime and content = "[0x4E2D, 0x56FD, 0x4E2D]"
      and baseIndex = 10 and cache = Map.empty, THEN conjunct1]
  have a: "fst (findPyjjMatchesInContent exPyRuntime (utf16 ''vygo'') [0x4E2D, 0x56FD, 0x4E2D] 10 Map.empty)
     = [\<lparr>index = 10, matchLength = 2, linkText = [0x4E2D, 0x56FD]\<rparr>]"
    unfolding t [of "utf16 ''vygo''"]
    by (simp add: codes utf16_def asciiLower_def isHighSurrogate_def isLowSurrogate_def startsWith_def
        isAsciiLetter_def buildCharInfos_def pyjjMatchAt_def tokensMatchAt_def)
  have b: "fst (findPyjjMatchesInContent exPyRuntime (utf16 ''Vyg'') [0x4E2D, 0x56FD, 0x4E2D] 10 Map.empty)
     = [\<lparr>index = 10, matchLength = 2, linkText = [0x4E2D, 0x56FD]\<rparr>]"
    unfolding t [of "utf16 ''Vyg''"]
    by (simp add: codes utf16_def asciiLower_def isHighSurrogate_def isLowSurrogate_def startsWith_def
        isAsciiLetter_def buildCharInfos_def pyjjMatchAt_def tokensMatchAt_def)
  have c: "fst (findPyjjMatchesInContent exPyRuntime (utf16 ''v.'') [0x4E2D, 0x56FD, 0x4E2D] 10 Map.empty) = []"
    unfolding t [of "utf16 ''v.''"]
    by (simp add: utf16_def isAsciiLetter_def)
  from a b c show ?thesis
    by simp
qed

text \<open>
  C6 as stated. The search string \<open>VY\<close> has the single token \<open>VY\<close>, which is not
  in the code list \<open>[vy]\<close> of U+4E2D; the matcher lowercases the search string first
  and returns the match.
\<close>

theorem phonetic_case_counterexample:
  "fst (findPyjjMatchesInContent exPyRuntime (utf16 ''VY'') [0x4E2D] 0 Map.empty)
     = [\<lparr>index = 0, matchLength = 1, linkText = [0x4E2D]\<rparr>] \<and>
   codesVia exPyRuntime Map.empty [0x4E2D] = [utf16 ''vy''] \<and>
   pyjjTokens (utf16 ''VY'') = [Pair (utf16 ''VY'')] \<and>
   \<not> phoneticMatchAsStated (codesVia exPyRuntime Map.empty) (utf16 ''VY'') [0x4E2D] 0"
proof -
  have codes: "codesVia exPyRuntime Map.empty [0x4E2D] = [utf16 ''vy'']"
    by (rule exCodes)
  have "fst (findPyjjMatchesInContent exPyRuntime (utf16 ''VY'') [0x4E2D] 0 Map.empty)
     = [\<lparr>index = 0, matchLength = 1, linkText = [0x4E2D]\<rparr>]"
    unfolding findPyjjMatches_eq
    by (simp add: codes isHighSurrogate_def isLowSurrogate_def asciiLower_def isAsciiLetter_def
        buildCharInfos_def pyjjMatchAt_def tokensMatchAt_def utf16_def)
  moreover have "\<not> phoneticMatchAsStated (codesVia exPyRuntime Map.empty) (utf16 ''VY'') [0x4E2D] 0"
    by (simp add: phoneticMatchAsStated_def tokensMatchAt_def codes isHighSurrogate_def
        isLowSurrogate_def utf16_def)
  moreover have "pyjjTokens (utf16 ''VY'') = [Pair (utf16 ''VY'')]"
    by (simp add: utf16_def)
  ultimately show ?thesis
    using codes by simp
qed


section \<open>Merged matches and the exclusion set\<close>

lemma matchKey_toFlashMatch [simp]: "matchKey (toFlashMatch m) = matchKey m"
  by (simp add: matchKey_def toFlashMatch_def)

lemma mergeInsert_keys:
  "matchKey ` set (foldl mergeInsert acc xs) = matchKey ` (set acc \<union> set xs)"
  by (induction xs arbitrary: acc) (auto simp: mergeInsert_def)

lemma mergeInsert_distinct:
  "distinct (map matchKey acc) \<Longrightarrow> distinct (map matchKey (foldl mergeInsert acc xs))"
  by (induction xs arbitrary: acc) (auto simp: mergeInsert_def)

lemma mergeInsert_first:
  "m \<in> set (foldl mergeInsert acc xs) \<Longrightarrow>
     m \<in> set acc \<or>
     (matchKey m \<notin> matchKey ` set acc \<and> find (\<lambda>x. matchKey x = matchKey m) xs = Some m)"
proof (induction xs arbitrary: acc)
  case Nil
  then show ?case by simp
next
  case (Cons x xs)
  from Cons.IH [of "mergeInsert acc x"] Cons.prems
  have "m \<in> set (mergeInsert acc x) \<or>
     (matchKey m \<notin> matchKey ` set (mergeInsert acc x) \<and> find (\<lambda>x. matchKey x = matchKey m) xs = Some m)"
    by simp
  then show ?case
    by (auto simp: mergeInsert_def split: if_splits)
qed

lemma mergeMatches_two:
  "mergeMatches [xs, ys] = sort_key matchKey (foldl mergeInsert [] (xs @ ys))"
  by (simp add: mergeMatches_def)

lemma less_matchKey:
  "matchKey a < matchKey b \<longleftrightarrow>
     index a < index b \<or> (index a = index b \<and> matchLength a < matchLength b)"
  by (auto simp: matchKey_def)

lemma mergeMatches_sorted:
  "sorted_wrt (\<lambda>a b. index a < index b \<or> (index a = index b \<and> matchLength a < matchLength b))
     (mergeMatches [xs, ys])"
proof -
  let ?merged = "foldl mergeInsert [] (xs @ ys)"
  have d: "distinct (map matchKey ?merged)"
    by (rule mergeInsert_distinct) simp
  then have "distinct (map matchKey (sort_key matchKey ?merged))"
    by (simp add: distinct_map)
  moreover have "sorted (map matchKey (sort_key matchKey ?merged))"
    by (rule sorted_sort_key)
  ultimately have "sorted_wrt (<) (map matchKey (sort_key matchKey ?merged))"
    by (simp add: strict_sorted_iff)
  then show ?thesis
    unfolding mergeMatches_two by (simp add: sorted_wrt_map less_matchKey)
qed

lemma mergeMatches_keys:
  "matchKey ` set (mergeMatches [xs, ys]) = matchKey ` (set xs \<union> set ys)"
  unfolding mergeMatches_two using mergeInsert_keys [of "[]" "xs @ ys"] by simp

lemma mergeMatches_first:
  assumes "m \<in> set (mergeMatches [xs, ys])"
  shows "find (\<lambda>x. matchKey x = matchKey m) (xs @ ys) = Some m"
  using assms mergeInsert_first [of m "[]" "xs @ ys"] unfolding mergeMatches_two by simp

lemma sorted_wrt_map_toFlashMatch:
  "sorted_wrt (\<lambda>a b. index a < index b \<or> (index a = index b \<and> matchLength a < matchLength b))
     (map toFlashMatch ms) =
   sorted_wrt (\<lambda>a b. index a < index b \<or> (index a = index b \<and> matchLength a < matchLength b)) ms"
  by (simp add: sorted_wrt_map toFlashMatch_def)

lemma getRawMatches_pyjj:
  "flashInputMode st = zh_pyjj \<Longrightarrow>
   fst (getRawMatches rt st search content baseIndex cache) =
     map toFlashMatch
       (mergeMatches [findLiteralMatches rt st search content baseIndex,
                      fst (findPyjjMatchesInContent rt search content baseIndex cache)])"
  by (simp add: getRawMatches_def Let_def split_beta)

text \<open>
  C5. In the phonetic input mode, the raw matches of the detector are the literal matches
  and the phonetic matches merged: of the matches with the same index and the same length,
  only the first in the order literal, phonetic is kept, and the result is ordered by index,
  then by length, strictly, so that no two of its matches have both in common.
\<close>

theorem getRawMatches_merged:
  assumes mode: "flashInputMode st = zh_pyjj"
    and lit: "literalMatches = findLiteralMatches rt st search content baseIndex"
    and py: "pyjjMatches = fst (findPyjjMatchesInContent rt search content baseIndex cache)"
    and raw: "raw = fst (getRawMatches rt st search content baseIndex cache)"
  shows "raw = map toFlashMatch (mergeMatches [literalMatches, pyjjMatches]) \<and>
         sorted_wrt (\<lambda>a b. index a < index b \<or> (index a = index b \<and> matchLength a < matchLength b)) raw \<and>
         matchKey ` set raw = matchKey ` (set literalMatches \<union> set pyjjMatches) \<and>
         (\<forall>m \<in> set (mergeMatches [literalMatches, pyjjMatches]).
            find (\<lambda>x. matchKey x = matchKey m) (literalMatches @ pyjjMatches) = Some m)"
proof -
  from mode lit py raw
  have eq: "raw = map toFlashMatch (mergeMatches [literalMatches, pyjjMatches])"
    by (simp add: getRawMatches_pyjj)
  have keys: "matchKey ` set (map toFlashMatch (mergeMatches [literalMatches, pyjjMatches]))
                = matchKey ` (set literalMatches \<union> set pyjjMatches)"
    using mergeMatches_keys [of literalMatches pyjjMatches] by (simp add: image_image)
  show ?thesis
    unfolding eq
    using keys mergeMatches_sorted [of literalMatches pyjjMatches]
      mergeMatches_first [of _ literalMatches pyjjMatches]
    by (simp add: sorted_wrt_map_toFlashMatch)
qed

theorem getRawMatches_merged_witness:
  "flashInputMode exPySettings = zh_pyjj \<and>
   findLiteralMatches exPyRuntime exPySettings (utf16 ''vy'') ([0x4E2D] @ utf16 ''vy'') 0
     = [\<lparr>index = 1, matchLength = 2, linkText = utf16 ''vy''\<rparr>] \<and>
   fst (findPyjjMatchesInContent exPyRuntime (utf16 ''vy'') ([0x4E2D] @ utf16 ''vy'') 0 Map.empty)
     = [\<lparr>index = 0, matchLength = 1, linkText = [0x4E2D]\<rparr>] \<and>
   fst (getRawMatches exPyRuntime exPySettings (utf16 ''vy'') ([0x4E2D] @ utf16 ''vy'') 0 Map.empty)
     = [\<lparr>index = 0, matchLength = 1, linkText = [0x4E2D], letter = []\<rparr>,
        \<lparr>index = 1, matchLength = 2, linkText = utf16 ''vy'', letter = []\<rparr>]"
proof -
  have mode: "flashInputMode exPySettings = zh_pyjj"
    by (simp add: exampleEvalPy)
  have lit: "[\<lparr>index = 1, matchLength = 2, linkText = utf16 ''vy''\<rparr>] =
      findLiteralMatches exPyRuntime exPySettings (utf16 ''vy'') ([0x4E2D] @ utf16 ''vy'') 0"
    by (simp add: matchEval exampleEvalPy)
  have codes: "codesVia exPyRuntime Map.empty [0x76] = []" "codesVia exPyRuntime Map.empty [0x79] = []"
    by (simp_all add: pyjjEval matchEval exampleEvalPy)
  have py: "[\<lparr>index = 0, matchLength = 1, linkText = [0x4E2D]\<rparr>] =
      fst (findPyjjMatchesInContent exPyRuntime (utf16 ''vy'') ([0x4E2D] @ utf16 ''vy'') 0 Map.empty)"
    unfolding findPyjjMatches_eq
    by (simp add: exCodes codes isHighSurrogate_def isLowSurrogate_def asciiLower_def isAsciiLetter_def
        buildCharInfos_def pyjjMatchAt_def tokensMatchAt_def utf16_def)
  from getRawMatches_merged [OF mode lit py refl, THEN conjunct1]
  have "fst (getRawMatches exPyRuntime exPySettings (utf16 ''vy'') ([0x4E2D] @ utf16 ''vy'') 0 Map.empty)
     = [\<lparr>index = 0, matchLength = 1, linkText = [0x4E2D], letter = []\<rparr>,
        \<lparr>index = 1, matchLength = 2, linkText = utf16 ''vy'', letter = []\<rparr>]"
    by (simp add: matchEval)
  with mode lit [symmetric] py [symmetric] show ?thesis
    by simp
qed


lemma findPyjjMatches_cong:
  "codesVia rt cache = codesVia rt cache0 \<Longrightarrow>
   fst (findPyjjMatchesInContent rt search content baseIndex cache)
     = fst (findPyjjMatchesInContent rt search content baseIndex cache0)"
  by (simp add: findPyjjMatches_eq)

lemma getRawMatches_cong:
  assumes "codesVia rt cache = codesVia rt cache0"
  shows "fst (getRawMatches rt st search content baseIndex cache)
           = fst (getRawMatches rt st search content baseIndex cache0)"
  using findPyjjMatches_cong [OF assms, of search content baseIndex]
  by (simp add: getRawMatches_def Let_def split_beta)

lemma codesVia_getRawMatches:
  "codesVia rt (snd (getRawMatches rt st search content baseIndex cache)) = codesVia rt cache"
  using codesVia_findPyjjMatches [of rt search content baseIndex cache]
  by (simp add: getRawMatches_def Let_def split_beta)

lemma conflictLoop_result:
  assumes "codesVia rt cache = codesVia rt cache0"
    and "distinct allCandidates"
    and "set candidates \<subseteq> set allCandidates"
    and "set conflicts \<subseteq> set allCandidates"
    and "distinct conflicts"
  shows "set (fst (conflictLoop rt st search content baseIndex (length allCandidates) candidates conflicts cache))
           = set conflicts \<union>
             {c \<in> set candidates. fst (getRawMatches rt st (search @ [c]) content baseIndex cache0) \<noteq> []} \<and>
         distinct (fst (conflictLoop rt st search content baseIndex (length allCandidates) candidates conflicts cache)) \<and>
         codesVia rt (snd (conflictLoop rt st search content baseIndex (length allCandidates) candidates conflicts cache))
           = codesVia rt cache0"
  using assms
proof (induction candidates arbitrary: conflicts cache)
  case Nil
  then show ?case by simp
next
  case (Cons candidate rest)
  let ?probe = "\<lambda>c. fst (getRawMatches rt st (search @ [c]) content baseIndex cache0) \<noteq> []"
  obtain extended cache' where g:
    "getRawMatches rt st (search @ [candidate]) content baseIndex cache = (extended, cache')"
    by (cases "getRawMatches rt st (search @ [candidate]) content baseIndex cache")
  from g getRawMatches_cong [OF Cons.prems(1), of st "search @ [candidate]" content baseIndex]
  have ext: "extended = fst (getRawMatches rt st (search @ [candidate]) content baseIndex cache0)"
    by simp
  from g codesVia_getRawMatches [of rt st "search @ [candidate]" content baseIndex cache] Cons.prems(1)
  have k: "codesVia rt cache' = codesVia rt cache0"
    by simp
  from Cons.prems have rest: "set rest \<subseteq> set allCandidates" and cand: "candidate \<in> set allCandidates"
    by simp_all
  show ?case
  proof (cases "?probe candidate")
    case False
    with ext have e: "extended = []" by simp
    from Cons.IH [OF k Cons.prems(2) rest Cons.prems(4) Cons.prems(5)] g e False
    show ?thesis
      by auto
  next
    case True
    with ext have e: "length extended > 0" by simp
    let ?conflicts' = "if candidate \<in> set conflicts then conflicts else conflicts @ [candidate]"
    have sub: "set ?conflicts' \<subseteq> set allCandidates"
      using Cons.prems(4) cand by simp
    have dis: "distinct ?conflicts'"
      using Cons.prems(5) by simp
    have set': "set ?conflicts' = insert candidate (set conflicts)"
      by auto
    show ?thesis
    proof (cases "length ?conflicts' = length allCandidates")
      case full: True
      have "card (set ?conflicts') = card (set allCandidates)"
        using dis Cons.prems(2) full by (simp only: distinct_card)
      with sub have all: "set ?conflicts' = set allCandidates"
        by (intro card_subset_eq) simp_all
      have res: "conflictLoop rt st search content baseIndex (length allCandidates) (candidate # rest) conflicts cache
                   = (?conflicts', cache')"
        using g e full by (simp add: Let_def)
      have "set conflicts \<union> {c \<in> set (candidate # rest). ?probe c} = set allCandidates"
        using all set' True rest Cons.prems(4) by auto
      with all dis k show ?thesis
        unfolding res by simp
    next
      case False
      have res: "conflictLoop rt st search content baseIndex (length allCandidates) (candidate # rest) conflicts cache
                   = conflictLoop rt st search content baseIndex (length allCandidates) rest ?conflicts' cache'"
        using g e False by (simp add: Let_def)
      from Cons.IH [OF k Cons.prems(2) rest sub dis] True set'
      show ?thesis
        unfolding res by auto
    qed
  qed
qed

lemma collectSearchConflictChars_result:
  "set (fst (collectSearchConflictChars rt st search content baseIndex cache))
     = {c \<in> set (toLowerCase rt (letters st)).
          \<not> isWhiteSpace c \<and> fst (getRawMatches rt st (search @ [c]) content baseIndex cache0) \<noteq> []}"
  "distinct (fst (collectSearchConflictChars rt st search content baseIndex cache))"
  "codesVia rt (snd (collectSearchConflictChars rt st search content baseIndex cache)) = codesVia rt cache0"
  if "codesVia rt cache = codesVia rt cache0"
proof -
  have d: "distinct (conflictCandidates rt st)"
    by (simp add: conflictCandidates_def distinct_insertionOrder)
  have s: "set (conflictCandidates rt st) = {c \<in> set (toLowerCase rt (letters st)). \<not> isWhiteSpace c}"
    by (auto simp: conflictCandidates_def set_insertionOrder)
  note r = conflictLoop_result [OF that d subset_refl, of "[]" st search content baseIndex]
  show "set (fst (collectSearchConflictChars rt st search content baseIndex cache))
     = {c \<in> set (toLowerCase rt (letters st)).
          \<not> isWhiteSpace c \<and> fst (getRawMatches rt st (search @ [c]) content baseIndex cache0) \<noteq> []}"
    using r s by (auto simp: collectSearchConflictChars_def Let_def)
  show "distinct (fst (collectSearchConflictChars rt st search content baseIndex cache))"
    using r by (simp add: collectSearchConflictChars_def Let_def)
  show "codesVia rt (snd (collectSearchConflictChars rt st search content baseIndex cache)) = codesVia rt cache0"
    using r by (simp add: collectSearchConflictChars_def Let_def)
qed

text \<open>
  C3. For every search string, content and cache, the characters that
  \<open>collectSearchConflictChars\<close> returns are exactly the code units of the lowercased
  alphabet that are not white space and for which the match finder, run again on the search
  string followed by that character over the same content, finds at least one match; and
  when \<open>findMatches\<close> reaches the label generator, this set is the exclusion set it passes.
\<close>

theorem exclusion_set_full_probe:
  "set (fst (collectSearchConflictChars rt st search content baseIndex cache))
     = {c \<in> set (toLowerCase rt (letters st)).
          \<not> isWhiteSpace c \<and> fst (getRawMatches rt st (search @ [c]) content baseIndex cache) \<noteq> []} \<and>
   (search \<noteq> [] \<and> visibleContent ed \<noteq> [] \<and>
    filter (isVisible ed) (fst (getRawMatches rt st search (visibleContent ed) (visibleIndex ed) cache)) \<noteq> []
    \<longrightarrow> fst (findMatches rt st ed search cache) =
          filter (\<lambda>m. letter m \<noteq> [])
            (assignLabels
               (filter (isVisible ed) (fst (getRawMatches rt st search (visibleContent ed) (visibleIndex ed) cache)))
               (generateHintLabels (letters st)
                  (length (filter (isVisible ed)
                     (fst (getRawMatches rt st search (visibleContent ed) (visibleIndex ed) cache))))
                  {c \<in> set (toLowerCase rt (letters st)).
                     \<not> isWhiteSpace c \<and>
                     fst (getRawMatches rt st (search @ [c]) (visibleContent ed) (visibleIndex ed) cache) \<noteq> []})))"
proof (intro conjI impI)
  show "set (fst (collectSearchConflictChars rt st search content baseIndex cache))
     = {c \<in> set (toLowerCase rt (letters st)).
          \<not> isWhiteSpace c \<and> fst (getRawMatches rt st (search @ [c]) content baseIndex cache) \<noteq> []}"
    by (rule collectSearchConflictChars_result(1)) simp
next
  let ?content = "visibleContent ed" and ?base = "visibleIndex ed"
  let ?raw = "getRawMatches rt st search ?content ?base cache"
  let ?visible = "filter (isVisible ed) (fst ?raw)"
  assume a: "search \<noteq> [] \<and> ?content \<noteq> [] \<and> ?visible \<noteq> []"
  then have rawne: "fst ?raw \<noteq> []"
    by auto
  have k: "codesVia rt (snd ?raw) = codesVia rt cache"
    by (rule codesVia_getRawMatches)
  note c = collectSearchConflictChars_result(1) [OF k, of st search ?content ?base]
  from a rawne show "fst (findMatches rt st ed search cache) =
          filter (\<lambda>m. letter m \<noteq> [])
            (assignLabels ?visible
               (generateHintLabels (letters st) (length ?visible)
                  {c \<in> set (toLowerCase rt (letters st)).
                     \<not> isWhiteSpace c \<and>
                     fst (getRawMatches rt st (search @ [c]) ?content ?base cache) \<noteq> []}))"
    by (simp add: findMatches_def Let_def split_beta c)
qed


theorem exclusion_set_full_probe_witness:
  "set (fst (collectSearchConflictChars exRuntime (exSettings\<lparr>letters := utf16 ''Dc d''\<rparr>)
          (utf16 ''ab'') (utf16 ''ab abc abd'') 0 Map.empty))
     = {of_char CHR ''d'', of_char CHR ''c''} \<and>
   {c \<in> set (toLowerCase exRuntime (letters (exSettings\<lparr>letters := utf16 ''Dc d''\<rparr>))).
      \<not> isWhiteSpace c \<and>
      fst (getRawMatches exRuntime (exSettings\<lparr>letters := utf16 ''Dc d''\<rparr>)
             (utf16 ''ab'' @ [c]) (utf16 ''ab abc abd'') 0 Map.empty) \<noteq> []}
     = {of_char CHR ''d'', of_char CHR ''c''} \<and>
   fst (findMatches exRuntime exSettings exEditor (utf16 ''ab'') Map.empty)
     = [\<lparr>index = 0, matchLength = 2, linkText = utf16 ''ab'', letter = utf16 ''a''\<rparr>,
        \<lparr>index = 3, matchLength = 2, linkText = utf16 ''ab'', letter = utf16 ''s''\<rparr>,
        \<lparr>index = 7, matchLength = 2, linkText = utf16 ''ab'', letter = utf16 ''aa''\<rparr>]"
proof -
  have run: "set (fst (collectSearchConflictChars exRuntime (exSettings\<lparr>letters := utf16 ''Dc d''\<rparr>)
          (utf16 ''ab'') (utf16 ''ab abc abd'') 0 Map.empty))
     = {of_char CHR ''d'', of_char CHR ''c''}"
    by (simp add: matchEval exampleEval)
  note probe = exclusion_set_full_probe [where rt = exRuntime
      and st = "exSettings\<lparr>letters := utf16 ''Dc d''\<rparr>" and search = "utf16 ''ab''"
      and content = "utf16 ''ab abc abd''" and baseIndex = 0 and cache = Map.empty,
      THEN conjunct1, symmetric]
  note t = exclusion_set_full_probe [where rt = exRuntime and st = exSettings
      and search = "utf16 ''ab''" and content = "visibleContent exEditor"
      and baseIndex = "visibleIndex exEditor" and cache = Map.empty and ed = exEditor]
  have hyp: "utf16 ''ab'' \<noteq> [] \<and> visibleContent exEditor \<noteq> [] \<and>
      filter (isVisible exEditor)
        (fst (getRawMatches exRuntime exSettings (utf16 ''ab'') (visibleContent exEditor)
                (visibleIndex exEditor) Map.empty)) \<noteq> []"
    by (simp add: matchEval exampleEval)
  from t [THEN conjunct2, rule_format, OF hyp]
  have "fst (findMatches exRuntime exSettings exEditor (utf16 ''ab'') Map.empty)
     = [\<lparr>index = 0, matchLength = 2, linkText = utf16 ''ab'', letter = utf16 ''a''\<rparr>,
        \<lparr>index = 3, matchLength = 2, linkText = utf16 ''ab'', letter = utf16 ''s''\<rparr>,
        \<lparr>index = 7, matchLength = 2, linkText = utf16 ''ab'', letter = utf16 ''aa''\<rparr>]"
    unfolding t [THEN conjunct1, symmetric]
    by (simp add: matchEval exampleEval)
  with run probe show ?thesis
    by simp
qed


section \<open>The controller\<close>

lemma fields_emit [simp]:
  "searchString (emit e c) = searchString c" "isActive (emit e c) = isActive c"
  "matches (emit e c) = matches c" "matchedPrefix (emit e c) = matchedPrefix c"
  "prefixShiftHeld (emit e c) = prefixShiftHeld c" "lastShiftKey (emit e c) = lastShiftKey c"
  "effects (emit e c) = effects c @ [e]"
  by (simp_all add: emit_def)

lemma fields_notify [simp]:
  "searchString (notifyDecorationUpdate h c) = searchString c"
  "isActive (notifyDecorationUpdate h c) = isActive c"
  "isDeactivating (notifyDecorationUpdate h c) = isDeactivating c"
  "matches (notifyDecorationUpdate h c) = matches c"
  "matchedPrefix (notifyDecorationUpdate h c) = matchedPrefix c"
  "prefixShiftHeld (notifyDecorationUpdate h c) = prefixShiftHeld c"
  "lastShiftKey (notifyDecorationUpdate h c) = lastShiftKey c"
  by (simp_all add: notifyDecorationUpdate_def Let_def)

lemma fields_teardown [simp]:
  "searchString (teardown h c) = []" "isActive (teardown h c) = False"
  "matches (teardown h c) = []" "matchedPrefix (teardown h c) = []"
  "prefixShiftHeld (teardown h c) = False" "lastShiftKey (teardown h c) = False"
  by (simp_all add: teardown_def unregisterClickHandler_def unregisterKeyHandler_def
      destroySearchPanel_def removeDimming_def)

lemma deactivate_cases:
  "deactivate h c = c \<or>
   (\<not> isActive (deactivate h c) \<and> searchString (deactivate h c) = [] \<and>
    matches (deactivate h c) = [] \<and> matchedPrefix (deactivate h c) = [] \<and>
    \<not> prefixShiftHeld (deactivate h c) \<and> \<not> lastShiftKey (deactivate h c))"
  by (simp add: deactivate_unfold split: option.split)

lemma jumpToMatch_cases:
  "(searchString (jumpToMatch h m u c) = searchString c \<and>
    matchedPrefix (jumpToMatch h m u c) = matchedPrefix c \<and>
    prefixShiftHeld (jumpToMatch h m u c) = prefixShiftHeld c) \<or>
   (\<not> isActive (jumpToMatch h m u c) \<and> searchString (jumpToMatch h m u c) = [] \<and>
    matches (jumpToMatch h m u c) = [] \<and> matchedPrefix (jumpToMatch h m u c) = [] \<and>
    \<not> prefixShiftHeld (jumpToMatch h m u c))"
proof -
  let ?c' = "if onJump h then emit (Jump (calculateJumpPosition h m u)) c
             else emit (Dispatch (calculateJumpPosition h m u)) c"
  have eq: "jumpToMatch h m u c = deactivate h ?c'"
    by (simp add: jumpToMatch_def Let_def)
  from deactivate_cases [of h ?c'] show ?thesis
    unfolding eq by (elim disjE) simp_all
qed

lemma updateMatches_frame:
  "(searchString (updateMatches h c) = searchString c \<and>
    matchedPrefix (updateMatches h c) = matchedPrefix c \<and>
    prefixShiftHeld (updateMatches h c) = prefixShiftHeld c) \<or>
   (\<not> isActive (updateMatches h c) \<and> searchString (updateMatches h c) = [] \<and>
    matches (updateMatches h c) = [] \<and> matchedPrefix (updateMatches h c) = [] \<and>
    \<not> prefixShiftHeld (updateMatches h c))"
proof (cases "length (searchString c) < flashCharacterCount (config h)")
  case True
  then show ?thesis by (simp add: updateMatches_def)
next
  case False
  obtain ms cache' where fm:
    "findMatches (js h) (config h) (editor h) (searchString c) (pyjjCodeCache c) = (ms, cache')"
    by (cases "findMatches (js h) (config h) (editor h) (searchString c) (pyjjCodeCache c)")
  let ?c2 = "c\<lparr>pyjjCodeCache := cache', matches := ms\<rparr>"
  show ?thesis
  proof (cases "length ms = 1")
    case True
    with False fm have eq: "updateMatches h c = jumpToMatch h (ms ! 0) (lastShiftKey c) ?c2"
      by (simp add: updateMatches_def detectorFindMatches_def)
    from jumpToMatch_cases [of h "ms ! 0" "lastShiftKey c" ?c2] show ?thesis
      unfolding eq by simp
  next
    case ne: False
    with False fm have "updateMatches h c = notifyDecorationUpdate h ?c2"
      by (simp add: updateMatches_def detectorFindMatches_def)
    then show ?thesis by simp
  qed
qed

lemma effects_deactivate_prefix: "\<exists>es. effects (deactivate h c) = effects c @ es"
  by (simp add: deactivate_unfold teardown_def unregisterClickHandler_def unregisterKeyHandler_def
      destroySearchPanel_def removeDimming_def notifyDecorationUpdate_def Let_def emit_def
      split: option.split)

lemma effects_jumpToMatch:
  "\<exists>es. effects (jumpToMatch h m u c) =
     effects c @ (if onJump h then Jump (calculateJumpPosition h m u)
                  else Dispatch (calculateJumpPosition h m u)) # es"
proof -
  let ?e = "if onJump h then Jump (calculateJumpPosition h m u)
            else Dispatch (calculateJumpPosition h m u)"
  have eq: "jumpToMatch h m u c = deactivate h (emit ?e c)"
    by (simp add: jumpToMatch_def Let_def)
  from effects_deactivate_prefix [of h "emit ?e c"] show ?thesis
    unfolding eq by auto
qed

lemma not_modifier_if_single: "length key = 1 \<Longrightarrow> \<not> isModifierKey key"
  by (auto simp: isModifierKey_def MODIFIER_KEYS_def utf16_def)

lemma not_named_if_single:
  "length key = 1 \<Longrightarrow> key \<noteq> utf16 ''Escape'' \<and> key \<noteq> utf16 ''Backspace'' \<and> key \<noteq> utf16 ''Tab''"
  by (auto simp: utf16_def)

lemma handleKeyDown_printable:
  "length key = 1 \<Longrightarrow>
   handleKeyDown h key shiftKey c = handlePrintable h key shiftKey (c\<lparr>lastShiftKey := shiftKey\<rparr>)"
  using not_modifier_if_single [of key] not_named_if_single [of key]
  by (simp add: handleKeyDown_def isPrintable_def Let_def)

lemma count_Complete_teardown:
  "count_list (effects (teardown h c)) Complete = count_list (effects c) Complete"
  by (simp add: teardown_def unregisterClickHandler_def unregisterKeyHandler_def
      destroySearchPanel_def removeDimming_def notifyDecorationUpdate_def Let_def)

lemma deactivate_inactive: "\<not> isActive (deactivate h c) \<or> isDeactivating (deactivate h c)"
  by (simp add: deactivate_unfold split: option.split)

lemma deactivate_idem: "deactivate h (deactivate h c) = deactivate h c"
  using deactivate_inactive [of h c] by (subst deactivate_unfold) auto

text \<open>
  C1. In plain searching (no prefix pending), with the search string at or above the
  threshold and at least one current match, a printable key first has the matches computed
  for the search string extended by the raw key. When the extended string has at least one
  match, the extension is committed, whatever labels the current matches carry; when it has
  exactly one, the controller jumps to it at once, with the shift state of this key.
\<close>

theorem search_extension_first:
  assumes printable: "length key = 1"
    and plain: "matchedPrefix c = []"
    and threshold: "flashCharacterCount (config h) \<le> length (searchString c)"
    and current: "matches c \<noteq> []"
    and extended: "findMatches (js h) (config h) (editor h) (searchString c @ key) (pyjjCodeCache c)
                     = (pm, cache')"
    and some: "pm \<noteq> []"
  shows "handleKeyDown h key shiftKey c =
           (let c' = c\<lparr>lastShiftKey := shiftKey, pyjjCodeCache := cache',
                        searchString := searchString c @ key, matches := pm\<rparr>
            in if length pm = 1 then jumpToMatch h (hd pm) shiftKey c'
               else notifyDecorationUpdate h c') \<and>
         (length pm = 1 \<longrightarrow>
           (\<exists>es. effects (handleKeyDown h key shiftKey c) =
              effects c @ (if onJump h then Jump (calculateJumpPosition h (hd pm) shiftKey)
                           else Dispatch (calculateJumpPosition h (hd pm) shiftKey)) # es)) \<and>
         (length pm \<noteq> 1 \<longrightarrow>
           searchString (handleKeyDown h key shiftKey c) = searchString c @ key \<and>
           matches (handleKeyDown h key shiftKey c) = pm \<and>
           matchedPrefix (handleKeyDown h key shiftKey c) = [])"
proof -
  let ?c' = "c\<lparr>lastShiftKey := shiftKey, pyjjCodeCache := cache',
               searchString := searchString c @ key, matches := pm\<rparr>"
  from some have hd0: "pm ! 0 = hd pm"
    by (cases pm) simp_all
  from plain threshold current extended some hd0
  have "handlePrintable h key shiftKey (c\<lparr>lastShiftKey := shiftKey\<rparr>) =
          (if length pm = 1 then jumpToMatch h (hd pm) shiftKey ?c'
           else notifyDecorationUpdate h ?c')"
    by (simp add: handlePrintable_def extendOrSelect_def detectorFindMatches_def Let_def)
  with handleKeyDown_printable [OF printable, of h shiftKey c]
  have eq: "handleKeyDown h key shiftKey c =
           (if length pm = 1 then jumpToMatch h (hd pm) shiftKey ?c'
            else notifyDecorationUpdate h ?c')"
    by simp
  have jump: "length pm = 1 \<longrightarrow>
           (\<exists>es. effects (handleKeyDown h key shiftKey c) =
              effects c @ (if onJump h then Jump (calculateJumpPosition h (hd pm) shiftKey)
                           else Dispatch (calculateJumpPosition h (hd pm) shiftKey)) # es)"
    using effects_jumpToMatch [of h "hd pm" shiftKey ?c'] by (simp add: eq)
  have stay: "length pm \<noteq> 1 \<longrightarrow>
           searchString (handleKeyDown h key shiftKey c) = searchString c @ key \<and>
           matches (handleKeyDown h key shiftKey c) = pm \<and>
           matchedPrefix (handleKeyDown h key shiftKey c) = []"
    using plain by (simp add: eq)
  from eq jump stay show ?thesis
    by (simp only: Let_def)
qed

theorem search_extension_first_witness:
  "length (utf16 ''c'') = 1 \<and>
   matchedPrefix exSearching = [] \<and>
   flashCharacterCount (config exHost) \<le> length (searchString exSearching) \<and>
   matches exSearching \<noteq> [] \<and>
   findMatches (js exHost) (config exHost) (editor exHost) (searchString exSearching @ utf16 ''c'')
       (pyjjCodeCache exSearching)
     = ([\<lparr>index = 3, matchLength = 3, linkText = utf16 ''abc'', letter = utf16 ''a''\<rparr>], Map.empty) \<and>
   (\<exists>es. effects (handleKeyDown exHost (utf16 ''c'') True exSearching) = effects exSearching @ Jump 3 # es)"
proof -
  let ?m = "\<lparr>index = 3, matchLength = 3, linkText = utf16 ''abc'', letter = utf16 ''a''\<rparr>"
  have printable: "length (utf16 ''c'') = 1"
    by (simp add: utf16_def)
  have plain: "matchedPrefix exSearching = []"
    by (simp add: exSearching_eq)
  have threshold: "flashCharacterCount (config exHost) \<le> length (searchString exSearching)"
    by (simp add: exSearching_eq exampleEval utf16_def)
  have current: "matches exSearching \<noteq> []"
    by (simp add: exSearching_eq)
  have extended: "findMatches (js exHost) (config exHost) (editor exHost)
       (searchString exSearching @ utf16 ''c'') (pyjjCodeCache exSearching) = ([?m], Map.empty)"
    by (simp add: exSearching_eq matchEval exampleEval)
  have pos: "calculateJumpPosition exHost ?m True = 3"
    by (simp add: calculateJumpPosition_def exampleEval)
  have callback: "onJump exHost"
    by (simp add: exampleEval)
  from search_extension_first [OF printable plain threshold current extended, of True,
      THEN conjunct2, THEN conjunct1]
  have "\<exists>es. effects (handleKeyDown exHost (utf16 ''c'') True exSearching) =
          effects exSearching @ Jump 3 # es"
    by (simp add: pos callback)
  with printable plain threshold current extended show ?thesis
    by blast
qed

text \<open>
  C2, as amended. In the prefix-pending state (a prefix is remembered, the search string is at
  or above the threshold and there are current matches), for every printable key: when the
  prefix followed by the normalised, lowercased key is the label of a current match, the
  controller jumps to the first such match with the shift flag \<open>prefixShiftHeld\<close> or this
  key's shift state; when no match has that label, the prefix is cleared, the raw key is
  appended to the search string and the matches are recomputed by \<open>updateMatches\<close>. The
  key is not tried as a label again.
\<close>

theorem prefix_pending_key:
  assumes printable: "length key = 1"
    and pending: "matchedPrefix c \<noteq> []"
    and threshold: "flashCharacterCount (config h) \<le> length (searchString c)"
    and current: "matches c \<noteq> []"
  shows "handleKeyDown h key shiftKey c =
           (case find (\<lambda>m. letter m = matchedPrefix c @ toLowerCase (js h) (normalizeKeypress key))
                   (matches c) of
              Some m \<Rightarrow> jumpToMatch h m (prefixShiftHeld c \<or> shiftKey) (c\<lparr>lastShiftKey := shiftKey\<rparr>)
            | None \<Rightarrow>
                updateMatches h
                  (c\<lparr>lastShiftKey := shiftKey, matchedPrefix := [], prefixShiftHeld := False,
                     searchString := searchString c @ key\<rparr>))"
  using pending threshold current
  by (simp add: handleKeyDown_printable [OF printable] handlePrintable_def addToSearch_def Let_def
      split: option.split)

theorem prefix_pending_key_witness:
  "length (utf16 ''s'') = 1 \<and>
   matchedPrefix exPrefixPending \<noteq> [] \<and>
   flashCharacterCount (config exHost2) \<le> length (searchString exPrefixPending) \<and>
   matches exPrefixPending \<noteq> [] \<and>
   handleKeyDown exHost2 (utf16 ''s'') False exPrefixPending =
     jumpToMatch exHost2 \<lparr>index = 6, matchLength = 2, linkText = utf16 ''ab'', letter = utf16 ''ds''\<rparr>
       True (exPrefixPending\<lparr>lastShiftKey := False\<rparr>) \<and>
   handleKeyDown exHost2 (utf16 ''x'') False exPrefixPending =
     updateMatches exHost2
       (exPrefixPending\<lparr>lastShiftKey := False, matchedPrefix := [], prefixShiftHeld := False,
          searchString := utf16 ''abx''\<rparr>)"
proof -
  have pending: "matchedPrefix exPrefixPending \<noteq> []"
    by (simp add: exPrefixPending_eq utf16_def)
  have threshold: "flashCharacterCount (config exHost2) \<le> length (searchString exPrefixPending)"
    by (simp add: exPrefixPending_eq exampleEval2 utf16_def)
  have current: "matches exPrefixPending \<noteq> []"
    by (simp add: exPrefixPending_eq)
  have s: "length (utf16 ''s'') = 1" and x: "length (utf16 ''x'') = 1"
    by (simp_all add: utf16_def)
  have jump: "handleKeyDown exHost2 (utf16 ''s'') False exPrefixPending =
     jumpToMatch exHost2 \<lparr>index = 6, matchLength = 2, linkText = utf16 ''ab'', letter = utf16 ''ds''\<rparr>
       True (exPrefixPending\<lparr>lastShiftKey := False\<rparr>)"
    unfolding prefix_pending_key [OF s pending threshold current]
    by (simp add: exPrefixPending_eq exampleEval2 utf16_def toLowerCase_def asciiLower_def
        normalizeKeypress_def isCyrillic_def)
  have fall: "handleKeyDown exHost2 (utf16 ''x'') False exPrefixPending =
     updateMatches exHost2
       (exPrefixPending\<lparr>lastShiftKey := False, matchedPrefix := [], prefixShiftHeld := False,
          searchString := utf16 ''abx''\<rparr>)"
    unfolding prefix_pending_key [OF x pending threshold current]
    by (simp add: exPrefixPending_eq exampleEval2 utf16_def toLowerCase_def asciiLower_def
        normalizeKeypress_def isCyrillic_def)
  from s pending threshold current jump fall show ?thesis
    by blast
qed

text \<open>
  C2 as stated. With the prefix \<open>d\<close> pending and the labels \<open>da\<close> and \<open>ds\<close>,
  the key \<open>d\<close> finds no label \<open>dd\<close>. The controller appends it to the search
  string and is left with no matches; the plain-searching handling of the same key (the
  handler run in the same state with the prefix cleared) would have taken it as the prefix
  of the two labels and kept the search string.
\<close>

theorem prefix_fallthrough_counterexample:
  "matchedPrefix exPrefixPending = utf16 ''d'' \<and>
   find (\<lambda>m. letter m = utf16 ''dd'') (matches exPrefixPending) = None \<and>
   searchString (handleKeyDown exHost2 (utf16 ''d'') False exPrefixPending) = utf16 ''abd'' \<and>
   matches (handleKeyDown exHost2 (utf16 ''d'') False exPrefixPending) = [] \<and>
   matchedPrefix (handleKeyDown exHost2 (utf16 ''d'') False exPrefixPending) = [] \<and>
   searchString (handleKeyDown exHost2 (utf16 ''d'') False
      (exPrefixPending\<lparr>matchedPrefix := [], prefixShiftHeld := False\<rparr>)) = utf16 ''ab'' \<and>
   matches (handleKeyDown exHost2 (utf16 ''d'') False
      (exPrefixPending\<lparr>matchedPrefix := [], prefixShiftHeld := False\<rparr>)) = matches exPrefixPending \<and>
   matchedPrefix (handleKeyDown exHost2 (utf16 ''d'') False
      (exPrefixPending\<lparr>matchedPrefix := [], prefixShiftHeld := False\<rparr>)) = utf16 ''d''"
  by (simp add: exPrefixPending_eq controllerEval matchEval exampleEval2)

text \<open>
  C8. Deactivation fires the completion callback once per activation: a call of
  \<open>deactivate\<close> on an active controller that is not already deactivating invokes the
  callback once, also when the callback calls \<open>deactivate\<close> again any number of
  times while the first call runs (those calls return at the guard), and a second call right
  after the first changes nothing. A call made while a deactivation is in progress returns
  the controller as it is.
\<close>

theorem deactivate_completes_once:
  "count_list (effects (deactivate h c)) Complete =
     count_list (effects c) Complete
       + (if isActive c \<and> \<not> isDeactivating c \<and> onComplete h \<noteq> None then 1 else 0) \<and>
   deactivate h (deactivate h c) = deactivate h c \<and>
   (isDeactivating c \<longrightarrow> deactivate h c = c)"
  by (simp add: deactivate_idem) (simp add: deactivate_unfold count_Complete_teardown split: option.split)

theorem deactivate_completes_once_witness:
  "isActive exSearching \<and> \<not> isDeactivating exSearching \<and> onComplete exHost = Some 2 \<and>
   count_list (effects exSearching) Complete = 0 \<and>
   count_list (effects (deactivate exHost exSearching)) Complete = 1 \<and>
   count_list (effects (deactivate exHost (deactivate exHost exSearching))) Complete = 1"
proof -
  have a: "isActive exSearching \<and> \<not> isDeactivating exSearching \<and> onComplete exHost = Some 2"
    by (simp add: exSearching_eq exampleEval)
  have z: "count_list (effects exSearching) Complete = 0"
    by (simp add: exSearching_eq)
  from deactivate_completes_once [of exHost exSearching] a z
  have "count_list (effects (deactivate exHost exSearching)) Complete = 1"
    and "deactivate exHost (deactivate exHost exSearching) = deactivate exHost exSearching"
    by simp_all
  with a z show ?thesis
    by simp
qed

text \<open>
  C9, as amended. \<open>Backspace\<close> records the key's shift state in every case. With a
  prefix pending it clears the prefix and its shift flag and recomputes the matches for the
  unchanged search string; otherwise, with a non-empty search string, it drops the last code
  unit and recomputes; otherwise it changes nothing else. Recomputing is
  \<open>updateMatches\<close>: the search string it leaves is the one it was given, unless exactly
  one match resulted and the jump deactivated the controller, which empties it.
\<close>

theorem backspace_effect:
  "handleKeyDown h (utf16 ''Backspace'') shiftKey c =
     (if matchedPrefix c \<noteq> []
      then updateMatches h (c\<lparr>lastShiftKey := shiftKey, matchedPrefix := [], prefixShiftHeld := False\<rparr>)
      else if searchString c \<noteq> []
      then updateMatches h (c\<lparr>lastShiftKey := shiftKey, searchString := butlast (searchString c)\<rparr>)
      else c\<lparr>lastShiftKey := shiftKey\<rparr>) \<and>
   (matchedPrefix c \<noteq> [] \<longrightarrow>
      matchedPrefix (handleKeyDown h (utf16 ''Backspace'') shiftKey c) = [] \<and>
      \<not> prefixShiftHeld (handleKeyDown h (utf16 ''Backspace'') shiftKey c) \<and>
      (searchString (handleKeyDown h (utf16 ''Backspace'') shiftKey c) = searchString c \<or>
       searchString (handleKeyDown h (utf16 ''Backspace'') shiftKey c) = [] \<and>
       \<not> isActive (handleKeyDown h (utf16 ''Backspace'') shiftKey c))) \<and>
   (matchedPrefix c = [] \<and> searchString c \<noteq> [] \<longrightarrow>
      matchedPrefix (handleKeyDown h (utf16 ''Backspace'') shiftKey c) = [] \<and>
      (searchString (handleKeyDown h (utf16 ''Backspace'') shiftKey c) = butlast (searchString c) \<or>
       searchString (handleKeyDown h (utf16 ''Backspace'') shiftKey c) = [] \<and>
       \<not> isActive (handleKeyDown h (utf16 ''Backspace'') shiftKey c)))"
proof -
  have ne: "utf16 ''Backspace'' \<noteq> utf16 ''Escape''"
    by (simp add: utf16_def)
  have eq: "handleKeyDown h (utf16 ''Backspace'') shiftKey c =
     (if matchedPrefix c \<noteq> []
      then updateMatches h (c\<lparr>lastShiftKey := shiftKey, matchedPrefix := [], prefixShiftHeld := False\<rparr>)
      else if searchString c \<noteq> []
      then updateMatches h (c\<lparr>lastShiftKey := shiftKey, searchString := butlast (searchString c)\<rparr>)
      else c\<lparr>lastShiftKey := shiftKey\<rparr>)"
    using ne by (simp add: handleKeyDown_def Let_def)
  show ?thesis
  proof (intro conjI impI)
    show "handleKeyDown h (utf16 ''Backspace'') shiftKey c =
     (if matchedPrefix c \<noteq> []
      then updateMatches h (c\<lparr>lastShiftKey := shiftKey, matchedPrefix := [], prefixShiftHeld := False\<rparr>)
      else if searchString c \<noteq> []
      then updateMatches h (c\<lparr>lastShiftKey := shiftKey, searchString := butlast (searchString c)\<rparr>)
      else c\<lparr>lastShiftKey := shiftKey\<rparr>)"
      by (rule eq)
  next
    assume p: "matchedPrefix c \<noteq> []"
    let ?c' = "c\<lparr>lastShiftKey := shiftKey, matchedPrefix := [], prefixShiftHeld := False\<rparr>"
    from p eq have r: "handleKeyDown h (utf16 ''Backspace'') shiftKey c = updateMatches h ?c'"
      by simp
    from updateMatches_frame [of h ?c']
    show "matchedPrefix (handleKeyDown h (utf16 ''Backspace'') shiftKey c) = []"
      and "\<not> prefixShiftHeld (handleKeyDown h (utf16 ''Backspace'') shiftKey c)"
      and "searchString (handleKeyDown h (utf16 ''Backspace'') shiftKey c) = searchString c \<or>
       searchString (handleKeyDown h (utf16 ''Backspace'') shiftKey c) = [] \<and>
       \<not> isActive (handleKeyDown h (utf16 ''Backspace'') shiftKey c)"
      unfolding r by auto
  next
    assume a: "matchedPrefix c = [] \<and> searchString c \<noteq> []"
    let ?c' = "c\<lparr>lastShiftKey := shiftKey, searchString := butlast (searchString c)\<rparr>"
    from a eq have r: "handleKeyDown h (utf16 ''Backspace'') shiftKey c = updateMatches h ?c'"
      by simp
    from updateMatches_frame [of h ?c'] a
    show "matchedPrefix (handleKeyDown h (utf16 ''Backspace'') shiftKey c) = []"
      and "searchString (handleKeyDown h (utf16 ''Backspace'') shiftKey c) = butlast (searchString c) \<or>
       searchString (handleKeyDown h (utf16 ''Backspace'') shiftKey c) = [] \<and>
       \<not> isActive (handleKeyDown h (utf16 ''Backspace'') shiftKey c)"
      unfolding r by auto
  qed
qed


theorem backspace_effect_witness:
  "matchedPrefix exPrefixPending \<noteq> [] \<and>
   searchString (handleKeyDown exHost2 (utf16 ''Backspace'') False exPrefixPending)
     = searchString exPrefixPending \<and>
   matchedPrefix (handleKeyDown exHost2 (utf16 ''Backspace'') False exPrefixPending) = [] \<and>
   length (matches (handleKeyDown exHost2 (utf16 ''Backspace'') False exPrefixPending)) = 3 \<and>
   matchedPrefix exSearching = [] \<and> searchString exSearching = utf16 ''ab'' \<and>
   searchString (handleKeyDown exHost (utf16 ''Backspace'') False exSearching) = utf16 ''a'' \<and>
   matches (handleKeyDown exHost (utf16 ''Backspace'') False exSearching) = []"
proof -
  have p: "matchedPrefix exPrefixPending \<noteq> []"
    by (simp add: exPrefixPending_eq utf16_def)
  have q: "matchedPrefix exSearching = []" "searchString exSearching = utf16 ''ab''"
    by (simp_all add: exSearching_eq)
  have e1: "handleKeyDown exHost2 (utf16 ''Backspace'') False exPrefixPending =
      updateMatches exHost2 (exPrefixPending\<lparr>lastShiftKey := False, matchedPrefix := [], prefixShiftHeld := False\<rparr>)"
    using backspace_effect [of exHost2 False exPrefixPending, THEN conjunct1] p by simp
  have e2: "handleKeyDown exHost (utf16 ''Backspace'') False exSearching =
      updateMatches exHost (exSearching\<lparr>lastShiftKey := False, searchString := butlast (searchString exSearching)\<rparr>)"
    using backspace_effect [of exHost False exSearching, THEN conjunct1] q by (simp add: utf16_def)
  have r1: "searchString (handleKeyDown exHost2 (utf16 ''Backspace'') False exPrefixPending)
     = searchString exPrefixPending \<and>
   matchedPrefix (handleKeyDown exHost2 (utf16 ''Backspace'') False exPrefixPending) = [] \<and>
   length (matches (handleKeyDown exHost2 (utf16 ''Backspace'') False exPrefixPending)) = 3"
    unfolding e1 by (simp add: exPrefixPending_eq controllerEval matchEval exampleEval2)
  have r2: "searchString (handleKeyDown exHost (utf16 ''Backspace'') False exSearching) = utf16 ''a'' \<and>
   matches (handleKeyDown exHost (utf16 ''Backspace'') False exSearching) = []"
    unfolding e2 by (simp add: exSearching_eq controllerEval matchEval exampleEval)
  from p q r1 r2 show ?thesis
    by simp
qed


text \<open>
  C9 as stated. With an empty search string and no prefix, \<open>Backspace\<close> pressed with
  shift held changes the controller: \<open>lastShiftKey\<close> becomes \<open>True\<close>.
\<close>

theorem backspace_shift_counterexample:
  "matchedPrefix (activate exHost newController) = [] \<and>
   searchString (activate exHost newController) = [] \<and>
   lastShiftKey (activate exHost newController) = False \<and>
   lastShiftKey (handleKeyDown exHost (utf16 ''Backspace'') True (activate exHost newController)) = True \<and>
   handleKeyDown exHost (utf16 ''Backspace'') True (activate exHost newController)
     \<noteq> activate exHost newController"
proof -
  have "lastShiftKey (handleKeyDown exHost (utf16 ''Backspace'') True (activate exHost newController)) = True"
    by (simp add: controllerEval exampleEval utf16_def)
  moreover have "lastShiftKey (activate exHost newController) = False"
    and "matchedPrefix (activate exHost newController) = []"
    and "searchString (activate exHost newController) = []"
    by (simp_all add: controllerEval exampleEval)
  ultimately show ?thesis
    by auto
qed

text \<open>
  C10. A key whose string is not of length one and is not \<open>Escape\<close>, \<open>Tab\<close> or
  \<open>Backspace\<close> changes nothing in the controller but \<open>lastShiftKey\<close>
  (\<open>Enter\<close>, the arrow keys, the modifier keys, the empty string); every key of
  length one is handled as printable input.
\<close>

theorem handleKeyDown_other_keys:
  "(length key \<noteq> 1 \<and> key \<noteq> utf16 ''Escape'' \<and> key \<noteq> utf16 ''Tab'' \<and> key \<noteq> utf16 ''Backspace''
      \<longrightarrow> handleKeyDown h key shiftKey c = c\<lparr>lastShiftKey := shiftKey\<rparr>) \<and>
   (length key = 1
      \<longrightarrow> handleKeyDown h key shiftKey c = handlePrintable h key shiftKey (c\<lparr>lastShiftKey := shiftKey\<rparr>))"
  by (simp add: handleKeyDown_printable) (simp add: handleKeyDown_def isPrintable_def Let_def)

theorem handleKeyDown_other_keys_witness:
  "handleKeyDown exHost (utf16 ''Enter'') True exSearching = exSearching\<lparr>lastShiftKey := True\<rparr> \<and>
   handleKeyDown exHost (utf16 ''ArrowLeft'') True exSearching = exSearching\<lparr>lastShiftKey := True\<rparr> \<and>
   handleKeyDown exHost (utf16 ''Shift'') True exSearching = exSearching\<lparr>lastShiftKey := True\<rparr> \<and>
   handleKeyDown exHost [] True exSearching = exSearching\<lparr>lastShiftKey := True\<rparr> \<and>
   searchString (handleKeyDown exHost (utf16 '' '') False (activate exHost newController)) = utf16 '' '' \<and>
   searchString (handleKeyDown exHost (utf16 ''1'') False exSearching) = utf16 ''ab1''"
proof -
  have enter: "handleKeyDown exHost (utf16 ''Enter'') True exSearching = exSearching\<lparr>lastShiftKey := True\<rparr>"
    using handleKeyDown_other_keys [of "utf16 ''Enter''" exHost True exSearching]
    by (simp add: utf16_def)
  have arrow: "handleKeyDown exHost (utf16 ''ArrowLeft'') True exSearching = exSearching\<lparr>lastShiftKey := True\<rparr>"
    using handleKeyDown_other_keys [of "utf16 ''ArrowLeft''" exHost True exSearching]
    by (simp add: utf16_def)
  have shift: "handleKeyDown exHost (utf16 ''Shift'') True exSearching = exSearching\<lparr>lastShiftKey := True\<rparr>"
    using handleKeyDown_other_keys [of "utf16 ''Shift''" exHost True exSearching]
    by (simp add: utf16_def)
  have none: "handleKeyDown exHost [] True exSearching = exSearching\<lparr>lastShiftKey := True\<rparr>"
    using handleKeyDown_other_keys [of "[]" exHost True exSearching]
    by (simp add: utf16_def)
  have "handleKeyDown exHost (utf16 '' '') False (activate exHost newController) =
          handlePrintable exHost (utf16 '' '') False ((activate exHost newController)\<lparr>lastShiftKey := False\<rparr>)"
    using handleKeyDown_other_keys [of "utf16 '' ''" exHost False "activate exHost newController"]
    by (simp add: utf16_def)
  then have space: "searchString (handleKeyDown exHost (utf16 '' '') False (activate exHost newController)) = utf16 '' ''"
    by (simp add: controllerEval matchEval exampleEval)
  have "handleKeyDown exHost (utf16 ''1'') False exSearching =
          handlePrintable exHost (utf16 ''1'') False (exSearching\<lparr>lastShiftKey := False\<rparr>)"
    using handleKeyDown_other_keys [of "utf16 ''1''" exHost False exSearching]
    by (simp add: utf16_def)
  then have digit: "searchString (handleKeyDown exHost (utf16 ''1'') False exSearching) = utf16 ''ab1''"
    by (simp add: exSearching_eq controllerEval matchEval exampleEval)
  from enter arrow shift none space digit show ?thesis
    by simp
qed

end
